theory Spec2Isabelle
  imports Main "HOL-Library.AList"
begin

section \<open>Strings and the regular expressions of \<^verbatim>\<open>ResourceTemplate.matches\<close>\<close>

text \<open>
  A string is a list of characters, each a code point below 256.

  \<^verbatim>\<open>str.replace(old, new)\<close> for a one-character \<open>old\<close>: every occurrence is replaced,
  left to right.
\<close>

definition str_replace :: "char \<Rightarrow> string \<Rightarrow> string \<Rightarrow> string" where
  "str_replace old new s = concat (map (\<lambda>c. if c = old then new else [c]) s)"

text \<open>
  \<^verbatim>\<open>pattern = self.uri_template.replace("{", "(?P<").replace("}", ">[^/]+)")\<close>
\<close>

definition pattern_of :: "string \<Rightarrow> string" where
  "pattern_of ut = str_replace (CHR ''}'') ''>[^/]+)'' (str_replace (CHR ''{'') ''(?P<'' ut)"

text \<open>
  The characters Python's \<^verbatim>\<open>re\<close> reads as syntax outside a character class:
  \<^verbatim>\<open>. ^ $ * + ? { } [ ] \ | ( )\<close>.
\<close>

definition backslash :: char where
  "backslash = CHR 0x5C"

definition newline :: char where
  "newline = CHR 0x0A"

definition meta_chars :: "char list" where
  "meta_chars = ''.^$*+?{}[]|()'' @ [backslash]"

definition ident_start :: "char list" where
  "ident_start = ''abcdefghijklmnopqrstuvwxyzABCDEFGHIJKLMNOPQRSTUVWXYZ_''"

definition ident_chars :: "char list" where
  "ident_chars = ident_start @ ''0123456789''"

text \<open>\<^verbatim>\<open>str.isidentifier()\<close> on a name made of ASCII characters.\<close>

definition is_identifier :: "string \<Rightarrow> bool" where
  "is_identifier n =
     (case n of [] \<Rightarrow> False
      | c # cs \<Rightarrow> c \<in> set ident_start \<and> list_all (\<lambda>d. d \<in> set ident_chars) cs)"

definition is_ascii :: "string \<Rightarrow> bool" where
  "is_ascii n = list_all (\<lambda>c. (of_char c :: nat) < 128) n"

text \<open>
  The fragment of \<^verbatim>\<open>re\<close> that is modelled: ordinary characters, \<^verbatim>\<open>.\<close>, \<^verbatim>\<open>^\<close>,
  \<^verbatim>\<open>$\<close> and the named group \<^verbatim>\<open>(?P<name>[^/]+)\<close> that \<open>pattern_of\<close> writes for a
  placeholder. A pattern that uses any other syntax is \<open>Unmodelled\<close>: the model says
  nothing about it. The errors are those \<^verbatim>\<open>re\<close>'s parser raises while reading the head
  of a named group.
\<close>

datatype re_item = Chr char | Dot | Bol | Eol | Grp string

datatype re_error =
    MissingGroupName
  | UnterminatedName
  | BadGroupName string
  | Redefinition string

datatype re_compiled = Compiled "re_item list" | ReError re_error | Unmodelled

datatype group_head = Head string string | HeadError re_error | HeadUnmodelled

text \<open>
  The parser after it has read \<^verbatim>\<open>(?P<\<close>: \<^verbatim>\<open>getuntil(">")\<close> reads the name (a
  backslash would be read together with the character after it, which is not modelled),
  \<^verbatim>\<open>checkgroupname\<close> wants an identifier, \<^verbatim>\<open>opengroup\<close> refuses a name already
  defined; the body has to be \<^verbatim>\<open>[^/]+\<close>, closed by \<^verbatim>\<open>)\<close>. \<open>Head n rest\<close> is the
  name and the input after the group.
\<close>

definition named_group :: "string list \<Rightarrow> string \<Rightarrow> group_head" where
  "named_group seen s =
     (let n = takeWhile (\<lambda>d. d \<noteq> CHR ''>'' \<and> d \<noteq> backslash) s;
          rest = dropWhile (\<lambda>d. d \<noteq> CHR ''>'' \<and> d \<noteq> backslash) s
      in case rest of
           [] \<Rightarrow> HeadError (if n = [] then MissingGroupName else UnterminatedName)
         | d # body \<Rightarrow>
             if d = backslash then HeadUnmodelled
             else if n = [] then HeadError MissingGroupName
             else if \<not> is_ascii n then HeadUnmodelled
             else if \<not> is_identifier n then HeadError (BadGroupName n)
             else if n \<in> set seen then HeadError (Redefinition n)
             else if take 6 body = ''[^/]+)'' then Head n (drop 6 body)
             else HeadUnmodelled)"

definition cons_item :: "re_item \<Rightarrow> re_compiled \<Rightarrow> re_compiled" where
  "cons_item i c = (case c of Compiled is \<Rightarrow> Compiled (i # is) | other \<Rightarrow> other)"

lemma named_group_shorter:
  "named_group seen s = Head n rest \<Longrightarrow> length rest < length s"
proof -
  let ?P = "\<lambda>d. d \<noteq> CHR ''>'' \<and> d \<noteq> backslash"
  assume h: "named_group seen s = Head n rest"
  then obtain d body where r: "dropWhile ?P s = d # body" and b: "rest = drop 6 body"
    by (auto simp: named_group_def Let_def split: list.splits if_splits)
  have "length (dropWhile ?P s) \<le> length s"
    by (rule length_dropWhile_le)
  with r b show ?thesis by simp
qed

text \<open>
  The parser, left to right; \<open>seen\<close> holds the group names defined so far. The first
  construct that is an error or is not modelled decides the result.
\<close>

function re_parse :: "string list \<Rightarrow> string \<Rightarrow> re_compiled" where
  "re_parse seen [] = Compiled []"
| "re_parse seen (c # cs) =
     (if c = CHR ''('' then
        (if take 3 cs = ''?P<'' then
           (case named_group seen (drop 3 cs) of
              Head n rest \<Rightarrow> cons_item (Grp n) (re_parse (n # seen) rest)
            | HeadError e \<Rightarrow> ReError e
            | HeadUnmodelled \<Rightarrow> Unmodelled)
         else Unmodelled)
      else if c = CHR ''.'' then cons_item Dot (re_parse seen cs)
      else if c = CHR ''^'' then cons_item Bol (re_parse seen cs)
      else if c = CHR ''$'' then cons_item Eol (re_parse seen cs)
      else if c \<in> set meta_chars then Unmodelled
      else cons_item (Chr c) (re_parse seen cs))"
  by pat_completeness auto
termination
proof (relation "measure (\<lambda>(seen, s). length s)", goal_cases)
  case 1
  show ?case by simp
next
  case (2 seen c cs n rest)
  from named_group_shorter [OF 2(3)] show ?case by simp
qed simp_all

text \<open>
  The matcher of \<^verbatim>\<open>re.match\<close>: the pattern is tried at the start of the string and may
  end anywhere. \<^verbatim>\<open>.\<close> is any character but a newline; \<^verbatim>\<open>^\<close> holds at the start of
  the string; \<^verbatim>\<open>$\<close> holds at the end and before a newline that ends the string.
  The group \<^verbatim>\<open>[^/]+\<close> is greedy: it takes every character up to the next \<^verbatim>\<open>/\<close>
  and gives them back one at a time, down to one character, until the rest of the pattern
  matches. The result is \<^verbatim>\<open>groupdict()\<close>, in the order of the groups.
\<close>

fun first_some :: "'a option list \<Rightarrow> 'a option" where
  "first_some [] = None"
| "first_some (None # xs) = first_some xs"
| "first_some (Some y # xs) = Some y"

primrec rmatch :: "re_item list \<Rightarrow> bool \<Rightarrow> string \<Rightarrow> (string \<times> string) list option" where
  "rmatch [] at_start s = Some []"
| "rmatch (i # r) at_start s =
     (case i of
        Chr c \<Rightarrow> (case s of [] \<Rightarrow> None
                  | d # t \<Rightarrow> if d = c then rmatch r False t else None)
      | Dot \<Rightarrow> (case s of [] \<Rightarrow> None
                | d # t \<Rightarrow> if d \<noteq> newline then rmatch r False t else None)
      | Bol \<Rightarrow> if at_start then rmatch r at_start s else None
      | Eol \<Rightarrow> if s = [] \<or> s = [newline] then rmatch r at_start s else None
      | Grp n \<Rightarrow>
          (let k = length (takeWhile (\<lambda>d. d \<noteq> CHR ''/'') s)
           in first_some
                (map (\<lambda>j. map_option (\<lambda>m. (n, take j s) # m) (rmatch r False (drop j s)))
                     (rev [1..<Suc k]))))"

datatype match_outcome =
    Returned "(string \<times> string) list option"
  | Raised re_error
  | NotModelled

definition re_match :: "string \<Rightarrow> string \<Rightarrow> match_outcome" where
  "re_match pat s =
     (case re_parse [] pat of
        Compiled items \<Rightarrow> Returned (rmatch items True s)
      | ReError e \<Rightarrow> Raised e
      | Unmodelled \<Rightarrow> NotModelled)"

section \<open>Python values, exceptions and callables\<close>

datatype pyval = VNone | VBool bool | VInt int | VStr string

text \<open>
  An exception: its class, \<^verbatim>\<open>str(e)\<close>, the exception that was being handled when it was
  raised (\<^verbatim>\<open>__context__\<close>), and whether its class derives from \<^verbatim>\<open>Exception\<close>
  (\<^verbatim>\<open>KeyboardInterrupt\<close>, \<^verbatim>\<open>SystemExit\<close> and \<^verbatim>\<open>CancelledError\<close> do not, and
  \<^verbatim>\<open>except Exception\<close> lets them through).
\<close>

datatype pyexn =
  PyExn (exn_class: string) (exn_str: string) (exn_context: "pyexn option") (is_Exception: bool)

definition ValueError :: "string \<Rightarrow> pyexn option \<Rightarrow> pyexn" where
  "ValueError msg ctx = PyExn ''ValueError'' msg ctx True"

definition AttributeError :: "string \<Rightarrow> pyexn" where
  "AttributeError msg = PyExn ''AttributeError'' msg None True"

type_synonym kwargs = "(string \<times> pyval) list"

type_synonym schema = "(string \<times> string) list"

text \<open>
  What a call returns: a value, or a coroutine that runs when it is awaited. \<open>'w\<close> is
  the part of the world the producers read and change (a clock, a counter, a remote
  service).
\<close>

datatype 'w returned = Plain pyval | Coroutine "'w \<Rightarrow> (pyexn + pyval) \<times> 'w"

text \<open>
  A callable, as far as \<^verbatim>\<open>ResourceTemplate\<close> uses one. The functions of Python and of
  pydantic are taken as they come with the callable:
  \<^item> \<open>dunder_name\<close>, \<open>dunder_doc\<close>: \<^verbatim>\<open>__name__\<close> (absent on some callables) and
    \<^verbatim>\<open>__doc__\<close>; the name of a lambda is \<^verbatim>\<open><lambda>\<close>;
  \<^item> \<open>json_schema\<close>: the result of \<^verbatim>\<open>TypeAdapter(func).json_schema()\<close>, which raises
    on a function that is not properly typed;
  \<^item> \<open>bind\<close>: Python's binding of the keyword arguments of a plain call to the
    signature (\<^verbatim>\<open>TypeError\<close> on a missing or unexpected argument);
  \<^item> \<open>validate\<close>: the validation and coercion of the arguments against the annotated
    types that \<^verbatim>\<open>validate_call\<close> performs before it calls the function;
  \<^item> \<open>validated\<close>: whether the callable is wrapped by \<^verbatim>\<open>validate_call\<close>;
  \<^item> \<open>body\<close>: the function's code.
\<close>

record 'w callable =
  dunder_name :: "string option"
  dunder_doc :: "string option"
  json_schema :: "pyexn + schema"
  bind :: "kwargs \<Rightarrow> pyexn + kwargs"
  validate :: "kwargs \<Rightarrow> pyexn + kwargs"
  validated :: bool
  body :: "kwargs \<Rightarrow> 'w \<Rightarrow> (pyexn + 'w returned) \<times> 'w"

text \<open>
  The state a resolution runs in: the world, and the log of the invocations of producer
  bodies (the arguments each one received).
\<close>

record 'w state =
  world :: 'w
  calls :: "kwargs list"

definition validate_call :: "'w callable \<Rightarrow> 'w callable" where
  "validate_call f = f\<lparr>validated := True\<rparr>"

text \<open>
  \<^verbatim>\<open>f(**kw)\<close>: the arguments are bound (or validated); only then the body runs, and
  the invocation is logged.
\<close>

definition call :: "'w callable \<Rightarrow> kwargs \<Rightarrow> 'w state \<Rightarrow> (pyexn + 'w returned) \<times> 'w state" where
  "call f kw s =
     (case (if validated f then validate f kw else bind f kw) of
        Inl e \<Rightarrow> (Inl e, s)
      | Inr args \<Rightarrow>
          (case body f args (world s) of
             (r, w) \<Rightarrow> (r, s\<lparr>world := w, calls := calls s @ [args]\<rparr>)))"

section \<open>\<^verbatim>\<open>fastmcp/resources/templates.py\<close>\<close>

record 'w ResourceTemplate =
  uri_template :: string
  name :: string
  description :: "string option"
  mime_type :: string
  func :: "'w callable"
  parameters :: schema

text \<open>
  Modelled from the spec: \<^verbatim>\<open>FunctionResource\<close> of \<^verbatim>\<open>fastmcp/resources/types.py\<close>, which
  is not among the sources. The spec's Resource has a \<^verbatim>\<open>uri\<close>, a \<^verbatim>\<open>name\<close>, a
  \<^verbatim>\<open>description\<close>, a \<^verbatim>\<open>mimeType\<close> and a zero-argument accessor of the content; the
  constructor stores what it is given. The accessor is a callable without arguments:
  run in a state, it returns or raises and leaves a state.
\<close>

record 'w FunctionResource =
  res_uri :: string
  res_name :: string
  res_description :: "string option"
  res_mime_type :: string
  res_func :: "'w state \<Rightarrow> (pyexn + pyval) \<times> 'w state"

text \<open>Python's \<^verbatim>\<open>a or b\<close> on optional strings: \<open>a\<close> when it is neither None nor empty.\<close>

definition truthy_str :: "string option \<Rightarrow> bool" where
  "truthy_str a = (case a of None \<Rightarrow> False | Some x \<Rightarrow> x \<noteq> [])"

definition from_function ::
  "'w callable \<Rightarrow> string \<Rightarrow> string option \<Rightarrow> string option \<Rightarrow> string option
     \<Rightarrow> pyexn + 'w ResourceTemplate" where
  "from_function fn uri_template' name' description' mime_type' =
     (case (if truthy_str name' then Inr (the name')
            else (case dunder_name fn of
                    None \<Rightarrow> Inl (AttributeError ''__name__'')
                  | Some n \<Rightarrow> Inr n)) of
        Inl e \<Rightarrow> Inl e
      | Inr func_name \<Rightarrow>
          if func_name = ''<lambda>''
          then Inl (ValueError ''You must provide a name for lambda functions'' None)
          else (case json_schema fn of
                  Inl e \<Rightarrow> Inl e
                | Inr ps \<Rightarrow>
                    Inr \<lparr>uri_template = uri_template',
                         name = func_name,
                         description =
                           (if truthy_str description' then description'
                            else if truthy_str (dunder_doc fn) then dunder_doc fn
                            else Some []),
                         mime_type =
                           (if truthy_str mime_type' then the mime_type' else ''text/plain''),
                         func = validate_call fn,
                         parameters = ps\<rparr>))"

text \<open>
  \<^verbatim>\<open>matches\<close>: the outcome is what it returns (\<open>Some\<close> the \<^verbatim>\<open>groupdict()\<close>, or
  \<open>None\<close>), the error \<^verbatim>\<open>re.match\<close> raises, or \<open>NotModelled\<close>.
\<close>

definition matches :: "'w ResourceTemplate \<Rightarrow> string \<Rightarrow> match_outcome" where
  "matches t uri = re_match (''^'' @ pattern_of (uri_template t) @ ''$'') uri"

text \<open>
  \<^verbatim>\<open>create_resource\<close>. The handler of \<^verbatim>\<open>except Exception as e\<close> raises a
  \<^verbatim>\<open>ValueError\<close> whose text ends with \<^verbatim>\<open>str(e)\<close>; raised inside the handler, its
  \<^verbatim>\<open>__context__\<close> is \<^verbatim>\<open>e\<close>.
\<close>

definition handler :: "pyexn \<Rightarrow> pyexn" where
  "handler e =
     (if is_Exception e
      then ValueError (''Error creating resource from template: '' @ exn_str e) (Some e)
      else e)"

text \<open>
  Lines 68 to 70: \<^verbatim>\<open>result = self.func(**params)\<close>, awaited when it is a coroutine.
\<close>

definition call_and_await ::
  "'w callable \<Rightarrow> kwargs \<Rightarrow> 'w state \<Rightarrow> (pyexn + pyval) \<times> 'w state" where
  "call_and_await f params s =
     (case call f params s of
        (Inl e, s1) \<Rightarrow> (Inl e, s1)
      | (Inr (Plain result), s1) \<Rightarrow> (Inr result, s1)
      | (Inr (Coroutine co), s1) \<Rightarrow>
          (case co (world s1) of (result, w) \<Rightarrow> (result, s1\<lparr>world := w\<rparr>)))"

definition create_resource ::
  "'w ResourceTemplate \<Rightarrow> string \<Rightarrow> kwargs \<Rightarrow> 'w state
     \<Rightarrow> (pyexn + 'w FunctionResource) \<times> 'w state" where
  "create_resource t uri params s =
     (case call_and_await (func t) params s of
        (Inl e, s1) \<Rightarrow> (Inl (handler e), s1)
      | (Inr result, s1) \<Rightarrow>
          (Inr \<lparr>res_uri = uri,
                res_name = name t,
                res_description = description t,
                res_mime_type = mime_type t,
                res_func = (\<lambda>s'. (Inr result, s'))\<rparr>,
           s1))"

text \<open>
  Modelled from the spec: the content accessor of a Resource (\<^verbatim>\<open>read\<close> in
  \<^verbatim>\<open>types.py\<close>, not among the sources) "returns the already-computed content": it calls
  the stored function.
\<close>

definition read :: "'w FunctionResource \<Rightarrow> 'w state \<Rightarrow> (pyexn + pyval) \<times> 'w state" where
  "read r s = res_func r s"

section \<open>\<^verbatim>\<open>fastmcp/cli/claude.py\<close>\<close>

text \<open>
  What \<^verbatim>\<open>json.loads\<close> returns: None, booleans, numbers, strings, lists and dicts. A
  dict is an association list in insertion order; lookup reads the first entry of a key.
\<close>

datatype json =
  JNull | JBool bool | JNum int | JStr string | JArr "json list" | JObj "(string \<times> json) list"

definition TypeError :: "string \<Rightarrow> pyexn" where
  "TypeError msg = PyExn ''TypeError'' msg None True"

definition KeyError :: "string \<Rightarrow> pyexn" where
  "KeyError msg = PyExn ''KeyError'' msg None True"

definition JSONDecodeError :: pyexn where
  "JSONDecodeError = PyExn ''JSONDecodeError'' [] None True"

definition OSError :: "string \<Rightarrow> pyexn" where
  "OSError msg = PyExn ''OSError'' msg None True"

definition RuntimeError :: "string \<Rightarrow> pyexn" where
  "RuntimeError msg = PyExn ''RuntimeError'' msg None True"

text \<open>Truth value testing: \<^verbatim>\<open>if env_vars:\<close>.\<close>

fun truthy :: "json \<Rightarrow> bool" where
  "truthy JNull = False"
| "truthy (JBool b) = b"
| "truthy (JNum n) = (n \<noteq> 0)"
| "truthy (JStr s) = (s \<noteq> [])"
| "truthy (JArr xs) = (xs \<noteq> [])"
| "truthy (JObj kvs) = (kvs \<noteq> [])"

fun is_substring :: "string \<Rightarrow> string \<Rightarrow> bool" where
  "is_substring k [] = (k = [])"
| "is_substring k (c # cs) = (take (length k) (c # cs) = k \<or> is_substring k cs)"

text \<open>\<^verbatim>\<open>key in container\<close>, \<^verbatim>\<open>container[key]\<close> and \<^verbatim>\<open>container[key] = value\<close> for a
  string key.\<close>

fun contains :: "json \<Rightarrow> string \<Rightarrow> pyexn + bool" where
  "contains (JObj kvs) k = Inr (k \<in> fst ` set kvs)"
| "contains (JArr xs) k = Inr (JStr k \<in> set xs)"
| "contains (JStr s) k = Inr (is_substring k s)"
| "contains other k = Inl (TypeError ''argument is not iterable'')"

fun getitem :: "json \<Rightarrow> string \<Rightarrow> pyexn + json" where
  "getitem (JObj kvs) k = (case map_of kvs k of None \<Rightarrow> Inl (KeyError k) | Some v \<Rightarrow> Inr v)"
| "getitem other k = Inl (TypeError ''indices must be integers, or not subscriptable'')"

fun setitem :: "json \<Rightarrow> string \<Rightarrow> json \<Rightarrow> pyexn + json" where
  "setitem (JObj kvs) k v = Inr (JObj (AList.update k v kvs))"
| "setitem other k v = Inl (TypeError ''object does not support item assignment'')"

text \<open>\<^verbatim>\<open>{**existing_env, **env_vars}\<close>, where \<^verbatim>\<open>env_vars\<close> is a dict.\<close>

fun dict_merge :: "json \<Rightarrow> (string \<times> json) list \<Rightarrow> pyexn + json" where
  "dict_merge (JObj old) new = Inr (JObj (fold (\<lambda>(k, v). AList.update k v) new old))"
| "dict_merge other new = Inl (TypeError ''object is not a mapping'')"

text \<open>
  The file system and the platform. A path is the list of its components. The content
  of a file is kept parsed: \<open>Json j\<close> is a text that \<^verbatim>\<open>json.loads\<close> reads as \<open>j\<close> and
  that \<^verbatim>\<open>json.dumps(j, indent=2)\<close> writes; \<open>NotJson\<close> is any text that
  \<^verbatim>\<open>json.loads\<close> rejects. \<open>home\<close> is \<^verbatim>\<open>Path.home()\<close>, \<open>None\<close> when the home
  directory cannot be determined. \<open>stat_fails p\<close> says that \<^verbatim>\<open>stat\<close> on \<open>p\<close> fails with
  an error that \<^verbatim>\<open>Path.exists()\<close> raises again (any \<^verbatim>\<open>OSError\<close> but a missing file,
  a component that is not a directory, a bad descriptor or a symlink loop: a directory
  that may not be searched, say). \<open>resolve\<close> is \<^verbatim>\<open>str(Path(p).resolve())\<close>, \<open>None\<close>
  when it raises. A write that is refused leaves the file as it was.
\<close>

type_synonym path = "string list"

datatype file_content = Json json | NotJson

datatype node = Directory | File file_content

record os_state =
  platform :: string
  home :: "path option"
  fs :: "path \<Rightarrow> node option"
  stat_fails :: "path \<Rightarrow> bool"
  readable :: "path \<Rightarrow> bool"
  writable :: "path \<Rightarrow> bool"
  resolve :: "string \<Rightarrow> string option"

definition bnd :: "pyexn + 'a \<Rightarrow> ('a \<Rightarrow> pyexn + 'b) \<Rightarrow> pyexn + 'b" where
  "bnd m f = (case m of Inl e \<Rightarrow> Inl e | Inr x \<Rightarrow> f x)"

text \<open>\<^verbatim>\<open>Path.home()\<close> and \<^verbatim>\<open>path.exists()\<close>.\<close>

definition path_home :: "os_state \<Rightarrow> pyexn + path" where
  "path_home os =
     (case home os of
        None \<Rightarrow> Inl (RuntimeError ''Could not determine home directory.'')
      | Some h \<Rightarrow> Inr h)"

definition exists :: "os_state \<Rightarrow> path \<Rightarrow> pyexn + bool" where
  "exists os p =
     (if stat_fails os p then Inl (OSError ''PermissionError'') else Inr (fs os p \<noteq> None))"

definition read_json :: "os_state \<Rightarrow> path \<Rightarrow> pyexn + json" where
  "read_json os p =
     (case fs os p of
        None \<Rightarrow> Inl (OSError ''FileNotFoundError'')
      | Some Directory \<Rightarrow> Inl (OSError ''IsADirectoryError'')
      | Some (File c) \<Rightarrow>
          if \<not> readable os p then Inl (OSError ''PermissionError'')
          else (case c of NotJson \<Rightarrow> Inl JSONDecodeError | Json j \<Rightarrow> Inr j))"

definition write_json :: "os_state \<Rightarrow> path \<Rightarrow> json \<Rightarrow> pyexn + os_state" where
  "write_json os p j =
     (if fs os p = Some Directory then Inl (OSError ''IsADirectoryError'')
      else if \<not> writable os p then Inl (OSError ''PermissionError'')
      else Inr (os\<lparr>fs := (fs os)(p \<mapsto> File (Json j))\<rparr>))"

text \<open>
  \<^verbatim>\<open>get_claude_config_path\<close>: lines 22 to 24 are \<open>existing\<close>; on a platform that is
  neither \<^verbatim>\<open>win32\<close> nor \<^verbatim>\<open>darwin\<close> nothing is asked of the system.
\<close>

definition existing :: "os_state \<Rightarrow> path \<Rightarrow> pyexn + path option" where
  "existing os p = bnd (exists os p) (\<lambda>found. Inr (if found then Some p else None))"

definition get_claude_config_path :: "os_state \<Rightarrow> pyexn + path option" where
  "get_claude_config_path os =
     (if platform os = ''win32''
      then bnd (path_home os) (\<lambda>h. existing os (h @ [''AppData'', ''Roaming'', ''Claude'']))
      else if platform os = ''darwin''
      then bnd (path_home os)
             (\<lambda>h. existing os (h @ [''Library'', ''Application Support'', ''Claude'']))
      else Inr None)"

text \<open>\<^verbatim>\<open>file_spec.rsplit(":", 1)\<close> on a string that has a colon.\<close>

definition rsplit_colon :: "string \<Rightarrow> string \<times> string" where
  "rsplit_colon s =
     (rev (tl (dropWhile (\<lambda>c. c \<noteq> CHR '':'') (rev s))),
      rev (takeWhile (\<lambda>c. c \<noteq> CHR '':'') (rev s)))"

definition resolved :: "os_state \<Rightarrow> string \<Rightarrow> pyexn + string" where
  "resolved os p = (case resolve os p of None \<Rightarrow> Inl (OSError ''resolve'') | Some q \<Rightarrow> Inr q)"

definition resolve_file_spec :: "os_state \<Rightarrow> string \<Rightarrow> pyexn + string" where
  "resolve_file_spec os file_spec =
     (if CHR '':'' \<in> set file_spec
      then (case rsplit_colon file_spec of
              (file_path, server_object) \<Rightarrow>
                bnd (resolved os file_path) (\<lambda>q. Inr (q @ '':'' @ server_object)))
      else resolved os file_spec)"

definition uv_args :: "string option \<Rightarrow> string list option \<Rightarrow> string list" where
  "uv_args with_editable with_packages =
     [''run'', ''--with'', ''fastmcp'']
     @ (case with_editable of None \<Rightarrow> [] | Some d \<Rightarrow> [''--with-editable'', d])
     @ (case with_packages of
          None \<Rightarrow> []
        | Some pkgs \<Rightarrow> concat (map (\<lambda>pkg. if pkg \<noteq> [] then [''--with'', pkg] else []) pkgs))"

definition env_json :: "(string \<times> string) list option \<Rightarrow> json" where
  "env_json env_vars =
     (case env_vars of None \<Rightarrow> JNull | Some ev \<Rightarrow> JObj (map (\<lambda>(k, v). (k, JStr v)) ev))"

text \<open>
  Lines 58 to 68: the environment of the new entry, from the entry the configuration
  already has for the server.
\<close>

definition merged_env :: "json \<Rightarrow> string \<Rightarrow> json \<Rightarrow> pyexn + json" where
  "merged_env servers server_name env_vars =
     bnd (contains servers server_name) (\<lambda>known.
     bnd (if known
          then bnd (getitem servers server_name) (\<lambda>entry. contains entry ''env'')
          else Inr False) (\<lambda>has_env.
       if has_env
       then bnd (getitem servers server_name) (\<lambda>entry.
            bnd (getitem entry ''env'') (\<lambda>existing_env.
              if truthy env_vars
              then (case env_vars of
                      JObj new \<Rightarrow> dict_merge existing_env new
                    | other \<Rightarrow> Inl (TypeError ''object is not a mapping''))
              else Inr existing_env))
       else Inr env_vars))"

text \<open>The body of the \<^verbatim>\<open>try\<close>, from the parsed configuration to the one written.\<close>

definition new_config ::
  "os_state \<Rightarrow> string \<Rightarrow> string \<Rightarrow> string option \<Rightarrow> string list option
     \<Rightarrow> (string \<times> string) list option \<Rightarrow> json \<Rightarrow> pyexn + json" where
  "new_config os file_spec server_name with_editable with_packages env_vars config0 =
     bnd (contains config0 ''mcpServers'') (\<lambda>present.
     bnd (if present then Inr config0 else setitem config0 ''mcpServers'' (JObj [])) (\<lambda>config.
     bnd (getitem config ''mcpServers'') (\<lambda>servers.
     bnd (merged_env servers server_name (env_json env_vars)) (\<lambda>env.
     bnd (resolve_file_spec os file_spec) (\<lambda>spec.
       let args = uv_args with_editable with_packages @ [''fastmcp'', ''run'', spec];
           server_config =
             JObj ([(''command'', JStr ''uv''), (''args'', JArr (map JStr args))]
                   @ (if truthy env then [(''env'', env)] else []))
       in bnd (setitem servers server_name server_config) (\<lambda>servers'.
          setitem config ''mcpServers'' servers'))))))"

definition config_file :: "path \<Rightarrow> path" where
  "config_file config_dir = config_dir @ [''claude_desktop_config.json'']"

text \<open>
  \<^verbatim>\<open>update_claude_config\<close>. Lines 45 to 51 run before the \<^verbatim>\<open>try\<close>: what they raise
  reaches the caller. \<^verbatim>\<open>except Exception\<close> catches what the body of the \<^verbatim>\<open>try\<close>
  raises.
\<close>

definition update_claude_config ::
  "os_state \<Rightarrow> string \<Rightarrow> string \<Rightarrow> string option \<Rightarrow> string list option
     \<Rightarrow> (string \<times> string) list option \<Rightarrow> (pyexn + bool) \<times> os_state" where
  "update_claude_config os file_spec server_name with_editable with_packages env_vars =
     (case get_claude_config_path os of
        Inl e \<Rightarrow> (Inl e, os)
      | Inr None \<Rightarrow> (Inr False, os)
      | Inr (Some config_dir) \<Rightarrow>
          (case exists os (config_file config_dir) of
             Inl e \<Rightarrow> (Inl e, os)
           | Inr False \<Rightarrow> (Inr False, os)
           | Inr True \<Rightarrow>
               (case bnd (bnd (read_json os (config_file config_dir))
                            (new_config os file_spec server_name with_editable
                               with_packages env_vars))
                       (write_json os (config_file config_dir)) of
                  Inr os' \<Rightarrow> (Inr True, os')
                | Inl e \<Rightarrow> if is_Exception e then (Inr False, os) else (Inl e, os))))"

section \<open>Templates as the specification reads them\<close>

text \<open>
  The specification's view of a template: a sequence of literal characters and
  placeholders. \<open>render\<close> is the template string, \<open>instantiate\<close> the concrete URI
  obtained by substituting \<open>\<sigma> n\<close> for each placeholder \<open>n\<close>. These definitions state
  the properties of \<open>matches\<close>; \<open>matches\<close> itself does not use them.
\<close>

datatype segment = Lit char | Hole string

fun render :: "segment list \<Rightarrow> string" where
  "render [] = []"
| "render (Lit c # r) = c # render r"
| "render (Hole n # r) = ''{'' @ n @ ''}'' @ render r"

fun instantiate :: "(string \<Rightarrow> string) \<Rightarrow> segment list \<Rightarrow> string" where
  "instantiate \<sigma> [] = []"
| "instantiate \<sigma> (Lit c # r) = c # instantiate \<sigma> r"
| "instantiate \<sigma> (Hole n # r) = \<sigma> n @ instantiate \<sigma> r"

fun holes :: "segment list \<Rightarrow> string list" where
  "holes [] = []"
| "holes (Lit c # r) = holes r"
| "holes (Hole n # r) = n # holes r"

fun literals :: "segment list \<Rightarrow> char list" where
  "literals [] = []"
| "literals (Lit c # r) = c # literals r"
| "literals (Hole n # r) = literals r"

definition plain :: "segment list \<Rightarrow> bool" where
  "plain segs \<longleftrightarrow>
     list_all (\<lambda>c. c \<notin> set meta_chars) (literals segs) \<and>
     list_all is_identifier (holes segs) \<and> distinct (holes segs)"

definition admissible :: "(string \<Rightarrow> string) \<Rightarrow> string list \<Rightarrow> bool" where
  "admissible \<sigma> ns \<longleftrightarrow> list_all (\<lambda>n. \<sigma> n \<noteq> [] \<and> CHR ''/'' \<notin> set (\<sigma> n)) ns"

fun separated :: "segment list \<Rightarrow> bool" where
  "separated [] = True"
| "separated (Lit c # r) = separated r"
| "separated [Hole n] = True"
| "separated (Hole n # Lit c # r) = (c = CHR ''/'' \<and> separated r)"
| "separated (Hole n # Hole m # r) = False"

fun re_text :: "segment list \<Rightarrow> string" where
  "re_text [] = []"
| "re_text (Lit c # r) = c # re_text r"
| "re_text (Hole n # r) = ''(?P<'' @ n @ ''>[^/]+)'' @ re_text r"

fun items :: "segment list \<Rightarrow> re_item list" where
  "items [] = []"
| "items (Lit c # r) = Chr c # items r"
| "items (Hole n # r) = Grp n # items r"

definition value_of :: "(string \<times> string) list \<Rightarrow> string \<Rightarrow> string" where
  "value_of m n = (case map_of m n of Some v \<Rightarrow> v | None \<Rightarrow> [])"

section \<open>Example producers and systems\<close>

text \<open>
  Concrete producers, on a world that is a counter, at which the theorems below are
  instantiated. \<open>str_arg\<close> and \<open>int_arg\<close> stand for the validation of one parameter
  annotated \<^verbatim>\<open>str\<close> or \<^verbatim>\<open>int\<close>: a string of decimal digits is coerced to the
  integer, any other string is refused.
\<close>

definition ValidationError :: "string \<Rightarrow> pyexn" where
  "ValidationError msg = PyExn ''ValidationError'' msg None True"

definition is_digits :: "string \<Rightarrow> bool" where
  "is_digits v = (v \<noteq> [] \<and> list_all (\<lambda>c. c \<in> set ''0123456789'') v)"

definition decimal :: "string \<Rightarrow> int" where
  "decimal v = foldl (\<lambda>a c. 10 * a + (int (of_char c) - 48)) 0 v"

definition str_arg :: "string \<Rightarrow> kwargs \<Rightarrow> pyexn + kwargs" where
  "str_arg k kw =
     (case map_of kw k of
        Some (VStr v) \<Rightarrow> Inr [(k, VStr v)]
      | other \<Rightarrow> Inl (ValidationError ''Input should be a valid string''))"

definition int_arg :: "string \<Rightarrow> kwargs \<Rightarrow> pyexn + kwargs" where
  "int_arg k kw =
     (case map_of kw k of
        Some (VInt i) \<Rightarrow> Inr [(k, VInt i)]
      | Some (VStr v) \<Rightarrow>
          if is_digits v then Inr [(k, VInt (decimal v))]
          else Inl (ValidationError ''Input should be a valid integer'')
      | other \<Rightarrow> Inl (ValidationError ''Input should be a valid integer''))"

text \<open>\<^verbatim>\<open>def get_weather(city: str) -> str: return "sunny"\<close>\<close>

definition get_weather :: "nat callable" where
  "get_weather =
     \<lparr>dunder_name = Some ''get_weather'', dunder_doc = None,
      json_schema = Inr [(''city'', ''string'')],
      bind = Inr, validate = str_arg ''city'', validated = False,
      body = (\<lambda>kw w. (Inr (Plain (VStr ''sunny'')), w))\<rparr>"

text \<open>A producer that returns the counter and advances it: no two calls return the same.\<close>

definition tick :: "nat callable" where
  "tick =
     \<lparr>dunder_name = Some ''tick'', dunder_doc = None,
      json_schema = Inr [(''city'', ''string'')],
      bind = Inr, validate = str_arg ''city'', validated = False,
      body = (\<lambda>kw w. (Inr (Plain (VInt (int w))), Suc w))\<rparr>"

text \<open>\<^verbatim>\<open>def by_id(n: int)\<close>, and a producer whose own code raises a validation error.\<close>

definition by_id :: "nat callable" where
  "by_id =
     \<lparr>dunder_name = Some ''by_id'', dunder_doc = None,
      json_schema = Inr [(''n'', ''integer'')],
      bind = Inr, validate = int_arg ''n'', validated = False,
      body = (\<lambda>kw w. (Inr (Plain VNone), w))\<rparr>"

definition broken :: "nat callable" where
  "broken =
     \<lparr>dunder_name = Some ''broken'', dunder_doc = None,
      json_schema = Inr [(''n'', ''string'')],
      bind = Inr, validate = str_arg ''n'', validated = False,
      body = (\<lambda>kw w. (Inl (ValidationError ''Input should be a valid integer''), w))\<rparr>"

text \<open>\<^verbatim>\<open>lambda city: "sunny"\<close>\<close>

definition anonymous :: "nat callable" where
  "anonymous = get_weather\<lparr>dunder_name := Some ''<lambda>''\<rparr>"

definition template_of :: "nat callable \<Rightarrow> string \<Rightarrow> nat ResourceTemplate" where
  "template_of f ut =
     \<lparr>uri_template = ut, name = the (dunder_name f), description = Some [],
      mime_type = ''text/plain'', func = validate_call f, parameters = []\<rparr>"

definition start :: "nat state" where
  "start = \<lparr>world = 0, calls = []\<rparr>"

text \<open>The template \<^verbatim>\<open>weather://{city}/current\<close> as segments.\<close>

definition weather_segments :: "segment list" where
  "weather_segments = map Lit ''weather://'' @ [Hole ''city''] @ map Lit ''/current''"

text \<open>
  \<^verbatim>\<open>async def fetch(city: str)\<close>: the call returns a coroutine; awaited, it advances the
  counter and returns \<^verbatim>\<open>"rain"\<close>.
\<close>

definition fetch :: "nat callable" where
  "fetch =
     \<lparr>dunder_name = Some ''fetch'', dunder_doc = None,
      json_schema = Inr [(''city'', ''string'')],
      bind = Inr, validate = str_arg ''city'', validated = False,
      body = (\<lambda>kw w. (Inr (Coroutine (\<lambda>w1. (Inr (VStr ''rain''), Suc w1))), w))\<rparr>"

text \<open>A state in which the counter stands at 5, and the resource that holds \<open>v\<close>.\<close>

definition later :: "nat state" where
  "later = \<lparr>world = 5, calls = []\<rparr>"

definition resource_of :: "string \<Rightarrow> string \<Rightarrow> pyval \<Rightarrow> nat FunctionResource" where
  "resource_of u n v =
     \<lparr>res_uri = u, res_name = n, res_description = Some [], res_mime_type = ''text/plain'',
      res_func = (\<lambda>s0. (Inr v, s0))\<rparr>"

text \<open>
  The variables a caller supplies, as the entries of a dict (a Python dict has each key
  once), and the servers of a configuration: \<^verbatim>\<open>config["mcpServers"]\<close>, none when the
  key is absent.
\<close>

definition supplied :: "(string \<times> string) list option \<Rightarrow> (string \<times> json) list" where
  "supplied env_vars =
     (case env_vars of None \<Rightarrow> [] | Some ev \<Rightarrow> map (\<lambda>(k, v). (k, JStr v)) ev)"

definition servers_of :: "json \<Rightarrow> json" where
  "servers_of config = (case getitem config ''mcpServers'' of Inr s \<Rightarrow> s | Inl e \<Rightarrow> JObj [])"

text \<open>
  A macOS machine whose Claude configuration knows three servers, one of them without
  an \<^verbatim>\<open>env\<close>; the same machine seen as Linux; and the same machine when the Claude
  directory may not be searched.
\<close>

definition mac_dir :: path where
  "mac_dir = [''Users'', ''ada'', ''Library'', ''Application Support'', ''Claude'']"

definition demo_entry :: json where
  "demo_entry =
     JObj [(''command'', JStr ''uv''), (''args'', JArr []),
           (''env'', JObj [(''A'', JStr ''1''), (''B'', JStr ''2'')])]"

definition old_servers :: json where
  "old_servers =
     JObj [(''demo'', demo_entry), (''other'', JObj [(''command'', JStr ''node'')]),
           (''bare'', JObj [(''command'', JStr ''uv'')])]"

definition old_config :: json where
  "old_config = JObj [(''theme'', JStr ''dark''), (''mcpServers'', old_servers)]"

definition mac :: os_state where
  "mac =
     \<lparr>platform = ''darwin'', home = Some [''Users'', ''ada''],
      fs = (\<lambda>p. if p = mac_dir then Some Directory
                 else if p = config_file mac_dir then Some (File (Json old_config))
                 else None),
      stat_fails = (\<lambda>p. False),
      readable = (\<lambda>p. True), writable = (\<lambda>p. True),
      resolve = (\<lambda>p. Some (''/work/'' @ p))\<rparr>"




section \<open>The pattern of a plain template\<close>

lemma str_replace_append:
  "str_replace a b (xs @ ys) = str_replace a b xs @ str_replace a b ys"
  by (simp add: str_replace_def)

lemma str_replace_absent: "a \<notin> set xs \<Longrightarrow> str_replace a b xs = xs"
  by (induction xs) (auto simp: str_replace_def)

lemma str_replace_Cons:
  "str_replace a b (x # xs) = (if x = a then b else [x]) @ str_replace a b xs"
  by (simp add: str_replace_def)

lemma ident_chars_plain:
  "c \<in> set ident_chars \<Longrightarrow>
     c \<noteq> CHR ''{'' \<and> c \<noteq> CHR ''}'' \<and> c \<noteq> CHR ''>'' \<and> c \<noteq> backslash \<and> (of_char c :: nat) < 128"
  unfolding ident_chars_def ident_start_def backslash_def by auto

lemma identifier_chars: "is_identifier n \<Longrightarrow> set n \<subseteq> set ident_chars"
proof (cases n)
  case Nil
  then show ?thesis by simp
next
  case (Cons c cs)
  assume "is_identifier n"
  with Cons have a: "c \<in> set ident_start" and b: "\<forall>d\<in>set cs. d \<in> set ident_chars"
    by (simp_all add: is_identifier_def list_all_iff)
  from a have "c \<in> set ident_chars" unfolding ident_chars_def by simp
  with b Cons show ?thesis by auto
qed

lemma identifier_ascii: "is_identifier n \<Longrightarrow> is_ascii n"
  unfolding is_ascii_def list_all_iff
  using identifier_chars [of n] ident_chars_plain by blast

lemma identifier_nonempty: "is_identifier n \<Longrightarrow> n \<noteq> []"
  by (auto simp: is_identifier_def)

lemma pattern_of_append: "pattern_of (xs @ ys) = pattern_of xs @ pattern_of ys"
  by (simp add: pattern_of_def str_replace_append)

lemma pattern_of_identifier:
  assumes "is_identifier n" shows "pattern_of n = n"
proof -
  from assms have "CHR ''{'' \<notin> set n" "CHR ''}'' \<notin> set n"
    using identifier_chars ident_chars_plain by blast+
  then show ?thesis by (simp add: pattern_of_def str_replace_absent)
qed

lemma pattern_of_literal:
  "c \<notin> set meta_chars \<Longrightarrow> pattern_of (c # xs) = c # pattern_of xs"
  by (auto simp: pattern_of_def str_replace_Cons meta_chars_def)

lemma pattern_of_open: "pattern_of (CHR ''{'' # xs) = ''(?P<'' @ pattern_of xs"
  by (simp add: pattern_of_def str_replace_Cons)

lemma pattern_of_close: "pattern_of (CHR ''}'' # xs) = ''>[^/]+)'' @ pattern_of xs"
  by (simp add: pattern_of_def str_replace_Cons)

lemma pattern_of_render:
  "plain segs \<Longrightarrow> pattern_of (render segs) = re_text segs"
proof (induction segs)
  case Nil
  show ?case by (simp add: pattern_of_def str_replace_def)
next
  case (Cons a segs)
  then have p: "plain segs" by (cases a) (auto simp: plain_def)
  show ?case
  proof (cases a)
    case (Lit c)
    with Cons.prems have "c \<notin> set meta_chars" by (simp add: plain_def)
    with Lit Cons.IH [OF p] show ?thesis by (simp add: pattern_of_literal)
  next
    case (Hole n)
    with Cons.prems have "is_identifier n" by (simp add: plain_def)
    with Hole Cons.IH [OF p] show ?thesis
      by (simp add: pattern_of_open pattern_of_append pattern_of_identifier pattern_of_close)
  qed
qed

lemma named_group_identifier:
  assumes "is_identifier n" and "n \<notin> set seen"
  shows "named_group seen (n @ ''>[^/]+)'' @ rest) = Head n rest"
proof -
  let ?P = "\<lambda>d. d \<noteq> CHR ''>'' \<and> d \<noteq> backslash"
  from assms(1) have all: "\<forall>c\<in>set n. ?P c"
    using identifier_chars ident_chars_plain by blast
  have tw: "takeWhile ?P (n @ ''>[^/]+)'' @ rest) = n"
    using all by (simp add: takeWhile_append2)
  have dw: "dropWhile ?P (n @ ''>[^/]+)'' @ rest) = ''>[^/]+)'' @ rest"
    using all by (simp add: dropWhile_append2)
  show ?thesis
    unfolding named_group_def Let_def tw dw
    using assms identifier_ascii [OF assms(1)] identifier_nonempty [OF assms(1)]
    by (simp add: backslash_def)
qed

lemma re_parse_Eol: "re_parse seen ''$'' = Compiled [Eol]"
  by (simp add: cons_item_def)

lemma re_parse_re_text:
  "plain segs \<Longrightarrow> set (holes segs) \<inter> set seen = {} \<Longrightarrow>
     re_parse seen (re_text segs @ ''$'') = Compiled (items segs @ [Eol])"
proof (induction segs arbitrary: seen)
  case Nil
  show ?case by (simp add: cons_item_def)
next
  case (Cons a segs)
  then have p: "plain segs" by (cases a) (auto simp: plain_def)
  show ?case
  proof (cases a)
    case (Lit c)
    with Cons.prems have c: "c \<notin> set meta_chars" and d: "set (holes segs) \<inter> set seen = {}"
      by (simp_all add: plain_def)
    from c have "c \<noteq> CHR ''(''" "c \<noteq> CHR ''.''" "c \<noteq> CHR ''^''" "c \<noteq> CHR ''$''"
      by (auto simp: meta_chars_def)
    with Lit c Cons.IH [OF p d] show ?thesis by (simp add: cons_item_def)
  next
    case (Hole n)
    with Cons.prems have i: "is_identifier n" and ns: "n \<notin> set seen"
      and d: "set (holes segs) \<inter> set (n # seen) = {}"
      by (auto simp: plain_def)
    have "re_parse seen (re_text (a # segs) @ ''$'') =
            (case named_group seen (n @ ''>[^/]+)'' @ (re_text segs @ ''$'')) of
               Head n rest \<Rightarrow> cons_item (Grp n) (re_parse (n # seen) rest)
             | HeadError e \<Rightarrow> ReError e
             | HeadUnmodelled \<Rightarrow> Unmodelled)"
      using Hole by simp
    also have "\<dots> = cons_item (Grp n) (re_parse (n # seen) (re_text segs @ ''$''))"
      using named_group_identifier [OF i ns, of "re_text segs @ ''$''"] by simp
    finally show ?thesis using Hole Cons.IH [OF p d] by (simp add: cons_item_def)
  qed
qed

lemma re_match_plain:
  assumes "plain segs"
  shows "re_match (''^'' @ pattern_of (render segs) @ ''$'') uri =
           Returned (rmatch (items segs @ [Eol]) True uri)"
proof -
  have "re_parse [] (''^'' @ re_text segs @ ''$'') = Compiled (Bol # items segs @ [Eol])"
    using re_parse_re_text [OF assms, of "[]"] by (simp add: cons_item_def)
  then show ?thesis by (simp add: re_match_def pattern_of_render [OF assms])
qed

section \<open>The matcher on a plain template\<close>

lemma first_some_None: "first_some xs = None \<longleftrightarrow> (\<forall>x\<in>set xs. x = None)"
  by (induction xs rule: first_some.induct) simp_all

lemma first_some_Some: "first_some xs = Some y \<Longrightarrow> Some y \<in> set xs"
  by (induction xs rule: first_some.induct) simp_all

lemma backoff_range: "j \<in> set (rev [1..<Suc k]) \<longleftrightarrow> 1 \<le> j \<and> j \<le> k"
  by (simp del: upt_Suc) arith

lemma rmatch_Grp:
  "rmatch (Grp n # r) b s =
     first_some (map (\<lambda>j. map_option (\<lambda>m. (n, take j s) # m) (rmatch r False (drop j s)))
        (rev [1..<Suc (length (takeWhile (\<lambda>d. d \<noteq> CHR ''/'') s))]))"
  by (simp add: Let_def del: upt_Suc)

lemma rmatch_Grp_Some:
  assumes "rmatch (Grp n # r) b s = Some m"
  shows "\<exists>j m'. 1 \<le> j \<and> j \<le> length (takeWhile (\<lambda>d. d \<noteq> CHR ''/'') s) \<and>
           rmatch r False (drop j s) = Some m' \<and> m = (n, take j s) # m'"
proof -
  let ?k = "length (takeWhile (\<lambda>d. d \<noteq> CHR ''/'') s)"
  let ?f = "\<lambda>j. map_option (\<lambda>m. (n, take j s) # m) (rmatch r False (drop j s))"
  from assms have "first_some (map ?f (rev [1..<Suc ?k])) = Some m"
    by (simp only: rmatch_Grp)
  from first_some_Some [OF this] have "Some m \<in> ?f ` set (rev [1..<Suc ?k])"
    by (simp only: set_map)
  then obtain j where j: "j \<in> set (rev [1..<Suc ?k])" and f: "Some m = ?f j"
    by (rule imageE)
  from f obtain m' where "rmatch r False (drop j s) = Some m'" "m = (n, take j s) # m'"
    by (cases "rmatch r False (drop j s)") auto
  with j show ?thesis unfolding backoff_range by blast
qed

lemma rmatch_Grp_not_None:
  assumes "1 \<le> j" and "j \<le> length (takeWhile (\<lambda>d. d \<noteq> CHR ''/'') s)"
    and "rmatch r False (drop j s) \<noteq> None"
  shows "rmatch (Grp n # r) b s \<noteq> None"
proof
  let ?k = "length (takeWhile (\<lambda>d. d \<noteq> CHR ''/'') s)"
  let ?f = "\<lambda>j. map_option (\<lambda>m. (n, take j s) # m) (rmatch r False (drop j s))"
  assume "rmatch (Grp n # r) b s = None"
  then have "first_some (map ?f (rev [1..<Suc ?k])) = None"
    by (simp only: rmatch_Grp)
  then have all: "\<forall>x\<in>?f ` set (rev [1..<Suc ?k]). x = None"
    by (simp only: first_some_None set_map)
  from assms(1,2) have "j \<in> set (rev [1..<Suc ?k])" unfolding backoff_range by simp
  with all have "?f j = None" by blast
  with assms(3) show False by simp
qed

lemma take_slash_free:
  assumes "j \<le> length (takeWhile (\<lambda>d. d \<noteq> CHR ''/'') s)"
  shows "CHR ''/'' \<notin> set (take j s)"
proof -
  let ?P = "\<lambda>d. d \<noteq> CHR ''/''"
  have "take j s = take j (takeWhile ?P s @ dropWhile ?P s)" by simp
  also have "\<dots> = take j (takeWhile ?P s)" using assms by (simp del: takeWhile_dropWhile_id)
  finally have "set (take j s) \<subseteq> set (takeWhile ?P s)" by (simp add: set_take_subset)
  then show ?thesis using set_takeWhileD [of _ ?P s] by blast
qed

lemma instantiate_cong:
  "(\<And>n. n \<in> set (holes segs) \<Longrightarrow> \<sigma> n = \<tau> n) \<Longrightarrow> instantiate \<sigma> segs = instantiate \<tau> segs"
  by (induction segs rule: holes.induct) auto

lemma value_of_Cons_same: "value_of ((n, v) # m) n = v"
  by (simp add: value_of_def)

lemma value_of_Cons_other: "n' \<noteq> n \<Longrightarrow> value_of ((n, v) # m) n' = value_of m n'"
  by (simp add: value_of_def)

lemma rmatch_sound:
  "distinct (holes segs) \<Longrightarrow> rmatch (items segs @ [Eol]) b s = Some m \<Longrightarrow>
     map fst m = holes segs \<and> admissible (value_of m) (holes segs) \<and>
     (s = instantiate (value_of m) segs \<or> s = instantiate (value_of m) segs @ [newline])"
proof (induction segs arbitrary: b s m rule: holes.induct)
  case 1
  then show ?case by (auto simp: admissible_def split: if_splits)
next
  case (2 c r)
  from "2.prems"(2) obtain t where s: "s = c # t" and r: "rmatch (items r @ [Eol]) False t = Some m"
    by (auto split: list.splits if_splits)
  from "2.prems"(1) have "distinct (holes r)" by simp
  from "2.IH" [OF this r] s show ?case by auto
next
  case (3 n r)
  from "3.prems"(2) have "rmatch (Grp n # (items r @ [Eol])) b s = Some m" by simp
  from rmatch_Grp_Some [OF this] obtain j m' where j1: "1 \<le> j"
    and jk: "j \<le> length (takeWhile (\<lambda>d. d \<noteq> CHR ''/'') s)"
    and r: "rmatch (items r @ [Eol]) False (drop j s) = Some m'"
    and m: "m = (n, take j s) # m'" by blast
  from "3.prems"(1) have d: "distinct (holes r)" and nr: "n \<notin> set (holes r)" by simp_all
  from "3.IH" [OF d r] have fst: "map fst m' = holes r"
    and adm: "admissible (value_of m') (holes r)"
    and dr: "drop j s = instantiate (value_of m') r \<or> drop j s = instantiate (value_of m') r @ [newline]"
    by simp_all
  have agree: "value_of m n' = value_of m' n'" if "n' \<in> set (holes r)" for n'
  proof -
    from that nr have "n' \<noteq> n" by blast
    then show ?thesis unfolding m by (rule value_of_Cons_other)
  qed
  have inst: "instantiate (value_of m) r = instantiate (value_of m') r"
    by (rule instantiate_cong) (rule agree)
  have vn: "value_of m n = take j s" using m by (simp add: value_of_Cons_same)
  have "length (takeWhile (\<lambda>d. d \<noteq> CHR ''/'') s) \<le> length s" by (rule length_takeWhile_le)
  with j1 jk have ne: "take j s \<noteq> []" by auto
  have sf: "CHR ''/'' \<notin> set (take j s)" by (rule take_slash_free [OF jk])
  have adm': "admissible (value_of m) (holes r)"
    using adm agree by (simp add: admissible_def list_all_iff)
  have split: "s = take j s @ drop j s" by simp
  have "s = instantiate (value_of m) (Hole n # r) \<or>
        s = instantiate (value_of m) (Hole n # r) @ [newline]"
  proof -
    from dr show ?thesis
    proof
      assume "drop j s = instantiate (value_of m') r"
      with split have "s = take j s @ instantiate (value_of m') r" by simp
      then show ?thesis by (simp add: vn inst)
    next
      assume "drop j s = instantiate (value_of m') r @ [newline]"
      with split have "s = take j s @ instantiate (value_of m') r @ [newline]" by simp
      then show ?thesis by (simp add: vn inst)
    qed
  qed
  moreover have "map fst m = holes (Hole n # r)" using m fst by simp
  moreover have "admissible (value_of m) (holes (Hole n # r))"
    using adm' vn ne sf by (simp add: admissible_def)
  ultimately show ?case by blast
qed

lemma rmatch_complete:
  "admissible \<sigma> (holes segs) \<Longrightarrow> rmatch (items segs @ [Eol]) b (instantiate \<sigma> segs) \<noteq> None"
proof (induction segs arbitrary: b rule: holes.induct)
  case 1
  then show ?case by simp
next
  case (2 c r)
  then show ?case by simp
next
  case (3 n r)
  let ?P = "\<lambda>d. d \<noteq> CHR ''/''"
  let ?s = "instantiate \<sigma> (Hole n # r)"
  from "3.prems" have ne: "\<sigma> n \<noteq> []" and sf: "CHR ''/'' \<notin> set (\<sigma> n)"
    and adm: "admissible \<sigma> (holes r)" by (simp_all add: admissible_def)
  have "takeWhile ?P ?s = \<sigma> n @ takeWhile ?P (instantiate \<sigma> r)"
    using sf by (auto intro!: takeWhile_append2)
  then have le: "length (\<sigma> n) \<le> length (takeWhile ?P ?s)" by simp
  from ne have ge: "1 \<le> length (\<sigma> n)" by (cases "\<sigma> n") simp_all
  have "rmatch (items r @ [Eol]) False (drop (length (\<sigma> n)) ?s) \<noteq> None"
    using "3.IH" [OF adm, of False] by simp
  with ge le have "rmatch (Grp n # (items r @ [Eol])) b ?s \<noteq> None"
    by (rule rmatch_Grp_not_None)
  then show ?case by simp
qed

lemma slash_free_prefix_unique:
  assumes "u @ CHR ''/'' # x = v @ CHR ''/'' # y"
    and "CHR ''/'' \<notin> set u" and "CHR ''/'' \<notin> set v"
  shows "u = v \<and> x = y"
proof -
  let ?P = "\<lambda>d. d \<noteq> CHR ''/''"
  have "takeWhile ?P (u @ CHR ''/'' # x) = u" using assms(2) by (auto simp: takeWhile_tail)
  moreover have "takeWhile ?P (v @ CHR ''/'' # y) = v" using assms(3) by (auto simp: takeWhile_tail)
  ultimately have "u = v" using assms(1) by simp
  with assms(1) show ?thesis by simp
qed

lemma instantiate_unique:
  "separated segs \<Longrightarrow> admissible \<sigma> (holes segs) \<Longrightarrow> admissible \<tau> (holes segs) \<Longrightarrow>
     instantiate \<sigma> segs = instantiate \<tau> segs \<Longrightarrow> n \<in> set (holes segs) \<Longrightarrow> \<sigma> n = \<tau> n"
proof (induction segs rule: separated.induct)
  case 1
  then show ?case by simp
next
  case (2 c r)
  then show ?case by simp
next
  case (3 k)
  then show ?case by simp
next
  case (4 k c r)
  from "4.prems"(1) have c: "c = CHR ''/''" and sep: "separated r" by simp_all
  from "4.prems"(2,3) have sf: "CHR ''/'' \<notin> set (\<sigma> k)" "CHR ''/'' \<notin> set (\<tau> k)"
    and adm: "admissible \<sigma> (holes r)" "admissible \<tau> (holes r)"
    by (simp_all add: admissible_def)
  from "4.prems"(4) c have "\<sigma> k @ CHR ''/'' # instantiate \<sigma> r = \<tau> k @ CHR ''/'' # instantiate \<tau> r"
    by simp
  from slash_free_prefix_unique [OF this sf] have k: "\<sigma> k = \<tau> k"
    and r: "instantiate \<sigma> r = instantiate \<tau> r" by simp_all
  show ?case
  proof (cases "n = k")
    case True
    with k show ?thesis by simp
  next
    case False
    with "4.prems"(5) have "n \<in> set (holes r)" by simp
    from "4.IH" [OF sep adm r this] show ?thesis .
  qed
next
  case (5 k l r)
  then show ?case by simp
qed

lemma match_result_determined:
  assumes "map fst m = ns" and "\<And>n. n \<in> set ns \<Longrightarrow> value_of m n = \<sigma> n" and "distinct ns"
  shows "m = map (\<lambda>n. (n, \<sigma> n)) ns"
  using assms
proof (induction m arbitrary: ns)
  case Nil
  then show ?case by simp
next
  case (Cons p m)
  obtain k v where p: "p = (k, v)" by (cases p)
  from Cons.prems(1) p obtain ns' where ns: "ns = k # ns'" and f: "map fst m = ns'" by auto
  from Cons.prems(3) ns have d: "distinct ns'" and kn: "k \<notin> set ns'" by simp_all
  have "\<And>n. n \<in> set ns' \<Longrightarrow> value_of m n = \<sigma> n"
  proof -
    fix n assume n: "n \<in> set ns'"
    with kn have "n \<noteq> k" by auto
    then have "value_of (p # m) n = value_of m n" using p by (simp add: value_of_Cons_other)
    with Cons.prems(2) [of n] n ns show "value_of m n = \<sigma> n" by simp
  qed
  from Cons.IH [OF f this d] have "m = map (\<lambda>n. (n, \<sigma> n)) ns'" .
  moreover have "v = \<sigma> k" using Cons.prems(2) [of k] ns p by (simp add: value_of_Cons_same)
  ultimately show ?case using p ns by simp
qed

section \<open>Facts about \<^verbatim>\<open>matches\<close> and \<^verbatim>\<open>create_resource\<close>\<close>

lemma matches_plain:
  assumes "plain segs" and "uri_template t = render segs"
  shows "matches t u = Returned (rmatch (items segs @ [Eol]) True u)"
  using re_match_plain [OF assms(1)] assms(2) by (simp add: matches_def)

lemma no_trailing_newline:
  assumes "newline \<notin> set u" and "u = x \<or> u = x @ [newline]"
  shows "u = x"
  using assms by auto

lemma matches_dot_example:
  "matches (template_of get_weather ''a.b/{x}'') ''aXb/y'' = Returned (Some [(''x'', ''y'')])"
proof -
  have "re_match (''^'' @ pattern_of ''a.b/{x}'' @ ''$'') ''aXb/y'' = Returned (Some [(''x'', ''y'')])"
    by code_simp
  then show ?thesis by (simp add: matches_def template_of_def)
qed

lemma matches_trailing_newline_example:
  "matches (template_of get_weather ''a/{x}/c'') (''a/b/c'' @ [newline])
     = Returned (Some [(''x'', ''b'')])"
proof -
  have "re_match (''^'' @ pattern_of ''a/{x}/c'' @ ''$'') (''a/b/c'' @ [newline])
          = Returned (Some [(''x'', ''b'')])"
    by code_simp
  then show ?thesis by (simp add: matches_def template_of_def)
qed

lemma create_resource_Inr:
  "create_resource t u params s = (Inr r, s') \<longleftrightarrow>
     (\<exists>v. call_and_await (func t) params s = (Inr v, s') \<and>
          r = \<lparr>res_uri = u, res_name = name t, res_description = description t,
               res_mime_type = mime_type t, res_func = (\<lambda>s0. (Inr v, s0))\<rparr>)"
  by (auto simp: create_resource_def split: prod.splits sum.splits)

lemma create_resource_Inl:
  "create_resource t u params s = (Inl x, s') \<longleftrightarrow>
     (\<exists>e. call_and_await (func t) params s = (Inl e, s') \<and> x = handler e)"
  by (auto simp: create_resource_def split: prod.splits sum.splits)

lemma call_Inr:
  "call f params s = (Inr res, s1) \<longleftrightarrow>
     (\<exists>args w. (if validated f then validate f params else bind f params) = Inr args \<and>
        body f args (world s) = (Inr res, w) \<and>
        s1 = s\<lparr>world := w, calls := calls s @ [args]\<rparr>)"
  by (auto simp: call_def split: sum.splits prod.splits)

lemma call_and_await_Inr:
  "call_and_await f params s = (Inr v, s') \<longleftrightarrow>
     (\<exists>args w. (if validated f then validate f params else bind f params) = Inr args \<and>
        (body f args (world s) = (Inr (Plain v), w) \<and>
           s' = s\<lparr>world := w, calls := calls s @ [args]\<rparr> \<or>
         (\<exists>co w'. body f args (world s) = (Inr (Coroutine co), w) \<and> co w = (Inr v, w') \<and>
           s' = s\<lparr>world := w', calls := calls s @ [args]\<rparr>)))"
proof
  assume h: "call_and_await f params s = (Inr v, s')"
  obtain x s1 where c: "call f params s = (x, s1)" by (cases "call f params s")
  show "\<exists>args w. (if validated f then validate f params else bind f params) = Inr args \<and>
        (body f args (world s) = (Inr (Plain v), w) \<and>
           s' = s\<lparr>world := w, calls := calls s @ [args]\<rparr> \<or>
         (\<exists>co w'. body f args (world s) = (Inr (Coroutine co), w) \<and> co w = (Inr v, w') \<and>
           s' = s\<lparr>world := w', calls := calls s @ [args]\<rparr>))"
  proof (cases x)
    case (Inl e)
    with h c show ?thesis by (simp add: call_and_await_def)
  next
    case (Inr res)
    with c have "call f params s = (Inr res, s1)" by simp
    then obtain args w where a: "(if validated f then validate f params else bind f params) = Inr args"
      and b: "body f args (world s) = (Inr res, w)"
      and s1: "s1 = s\<lparr>world := w, calls := calls s @ [args]\<rparr>"
      unfolding call_Inr by blast
    show ?thesis
    proof (cases res)
      case (Plain v')
      with h c Inr have "v' = v" "s' = s1" by (simp_all add: call_and_await_def)
      with a b s1 Plain show ?thesis by blast
    next
      case (Coroutine co)
      obtain y w' where co: "co (world s1) = (y, w')" by (cases "co (world s1)")
      with h c Inr Coroutine have "y = Inr v" "s' = s1\<lparr>world := w'\<rparr>"
        by (simp_all add: call_and_await_def)
      with a b s1 Coroutine co show ?thesis by auto
    qed
  qed
next
  assume "\<exists>args w. (if validated f then validate f params else bind f params) = Inr args \<and>
        (body f args (world s) = (Inr (Plain v), w) \<and>
           s' = s\<lparr>world := w, calls := calls s @ [args]\<rparr> \<or>
         (\<exists>co w'. body f args (world s) = (Inr (Coroutine co), w) \<and> co w = (Inr v, w') \<and>
           s' = s\<lparr>world := w', calls := calls s @ [args]\<rparr>))"
  then show "call_and_await f params s = (Inr v, s')"
    by (auto simp: call_and_await_def call_def)
qed

lemma sunny_created:
  "create_resource (template_of get_weather ''weather://{city}/current'')
      ''weather://paris/current'' [(''city'', VStr ''paris'')] start
     = (Inr (resource_of ''weather://paris/current'' ''get_weather'' (VStr ''sunny'')),
        \<lparr>world = 0, calls = [[(''city'', VStr ''paris'')]]\<rparr>)"
  by (simp add: create_resource_def call_and_await_def call_def template_of_def get_weather_def
      validate_call_def str_arg_def start_def resource_of_def)

lemma tick_created:
  "create_resource (template_of tick ''tick://{city}'') ''tick://a'' [(''city'', VStr ''a'')] later
     = (Inr (resource_of ''tick://a'' ''tick'' (VInt 5)),
        \<lparr>world = 6, calls = [[(''city'', VStr ''a'')]]\<rparr>)"
  by (simp add: create_resource_def call_and_await_def call_def template_of_def tick_def
      validate_call_def str_arg_def later_def resource_of_def)

lemma fetch_created:
  "create_resource (template_of fetch ''weather://{city}/current'') ''weather://paris/current''
      [(''city'', VStr ''paris'')] later
     = (Inr (resource_of ''weather://paris/current'' ''fetch'' (VStr ''rain'')),
        \<lparr>world = 6, calls = [[(''city'', VStr ''paris'')]]\<rparr>)"
  by (simp add: create_resource_def call_and_await_def call_def template_of_def fetch_def
      validate_call_def str_arg_def later_def resource_of_def)


section \<open>Facts about \<^verbatim>\<open>update_claude_config\<close>\<close>

lemma bnd_Inl: "bnd m f = Inl e \<longleftrightarrow> m = Inl e \<or> (\<exists>x. m = Inr x \<and> f x = Inl e)"
  by (cases m) (simp_all add: bnd_def)

lemma bnd_Inr: "bnd m f = Inr y \<longleftrightarrow> (\<exists>x. m = Inr x \<and> f x = Inr y)"
  by (cases m) (simp_all add: bnd_def)

lemma contains_Exception: "contains j k = Inl e \<Longrightarrow> is_Exception e"
  by (cases j) (auto simp: TypeError_def)

lemma getitem_Exception: "getitem j k = Inl e \<Longrightarrow> is_Exception e"
  by (cases j) (auto simp: TypeError_def KeyError_def split: option.splits)

lemma setitem_Exception: "setitem j k v = Inl e \<Longrightarrow> is_Exception e"
  by (cases j) (auto simp: TypeError_def)

lemma dict_merge_Exception: "dict_merge j new = Inl e \<Longrightarrow> is_Exception e"
  by (cases j) (auto simp: TypeError_def)

lemma resolved_Exception: "resolved os p = Inl e \<Longrightarrow> is_Exception e"
  by (auto simp: resolved_def OSError_def split: option.splits)

lemma resolve_file_spec_Exception: "resolve_file_spec os p = Inl e \<Longrightarrow> is_Exception e"
  by (auto simp: resolve_file_spec_def bnd_Inl split: if_splits prod.splits
      dest: resolved_Exception)

lemma merged_env_Exception: "merged_env servers sn ev = Inl e \<Longrightarrow> is_Exception e"
  unfolding merged_env_def bnd_Inl
  by (cases ev)
     (auto simp: bnd_Inl bnd_Inr TypeError_def split: if_splits
      dest: contains_Exception getitem_Exception dict_merge_Exception)

lemma new_config_Exception:
  "new_config os fsp sn we wp ev config0 = Inl e \<Longrightarrow> is_Exception e"
  unfolding new_config_def Let_def bnd_Inl
  by (auto split: if_splits
      dest: contains_Exception getitem_Exception setitem_Exception merged_env_Exception
        resolve_file_spec_Exception)

lemma read_json_Exception: "read_json os p = Inl e \<Longrightarrow> is_Exception e"
  by (auto simp: read_json_def OSError_def JSONDecodeError_def
      split: option.splits node.splits file_content.splits if_splits)

lemma write_json_Exception: "write_json os p j = Inl e \<Longrightarrow> is_Exception e"
  by (auto simp: write_json_def OSError_def split: if_splits)

lemma try_body_Exception:
  "bnd (bnd (read_json os p) (new_config os fsp sn we wp ev)) (write_json os p) = Inl e
     \<Longrightarrow> is_Exception e"
  unfolding bnd_Inl
  by (auto dest: read_json_Exception new_config_Exception write_json_Exception)

lemma update_after_probes:
  assumes "get_claude_config_path os = Inr (Some d)" and "exists os (config_file d) = Inr True"
  shows "update_claude_config os fsp sn we wp ev =
           (case bnd (bnd (read_json os (config_file d)) (new_config os fsp sn we wp ev))
                   (write_json os (config_file d)) of
              Inr os' \<Rightarrow> (Inr True, os')
            | Inl e \<Rightarrow> (Inr False, os))"
proof (cases "bnd (bnd (read_json os (config_file d)) (new_config os fsp sn we wp ev))
                   (write_json os (config_file d))")
  case (Inl e)
  from try_body_Exception [OF Inl] have "is_Exception e" .
  with assms Inl show ?thesis by (simp add: update_claude_config_def)
next
  case (Inr os')
  with assms show ?thesis by (simp add: update_claude_config_def)
qed

lemma mac_path: "get_claude_config_path mac = Inr (Some mac_dir)"
  by (simp add: get_claude_config_path_def path_home_def existing_def exists_def bnd_def
      mac_def mac_dir_def)

lemma mac_file: "fs mac (config_file mac_dir) = Some (File (Json old_config))"
  by (simp add: mac_def mac_dir_def config_file_def)



lemma demo_updated:
  "fst (update_claude_config mac ''server.py'' ''demo'' None None
          (Some [(''B'', ''3''), (''C'', ''4'')])) = Inr True"
  by (simp add: update_claude_config_def mac_path)
     (simp add: mac_def mac_dir_def config_file_def exists_def read_json_def write_json_def
       new_config_def merged_env_def env_json_def bnd_def old_config_def old_servers_def
       demo_entry_def resolve_file_spec_def resolved_def uv_args_def)

lemma bare_updated:
  "fst (update_claude_config mac ''server.py'' ''bare'' None None None) = Inr True"
  by (simp add: update_claude_config_def mac_path)
     (simp add: mac_def mac_dir_def config_file_def exists_def read_json_def write_json_def
       new_config_def merged_env_def env_json_def bnd_def old_config_def old_servers_def
       demo_entry_def resolve_file_spec_def resolved_def uv_args_def)

section \<open>Facts about the merged environment\<close>

lemma getitem_Inr: "getitem j k = Inr v \<longleftrightarrow> (\<exists>kvs. j = JObj kvs \<and> map_of kvs k = Some v)"
  by (cases j) (auto split: option.splits)

lemma setitem_Inr: "setitem j k v = Inr j' \<longleftrightarrow> (\<exists>kvs. j = JObj kvs \<and> j' = JObj (AList.update k v kvs))"
  by (cases j) auto

lemma getitem_update_same: "getitem (JObj (AList.update k v kvs)) k = Inr v"
  by (simp add: update_conv')

lemma getitem_update_other:
  "k' \<noteq> k \<Longrightarrow> getitem (JObj (AList.update k v kvs)) k' = getitem (JObj kvs) k'"
  by (simp add: update_conv')

lemma contains_JObj: "map_of kvs k = Some v \<Longrightarrow> contains (JObj kvs) k = Inr True"
  using map_of_eq_None_iff [of kvs k] by auto

lemma contains_JObj_iff: "contains (JObj kvs) k = Inr b \<longleftrightarrow> b = (map_of kvs k \<noteq> None)"
  by (auto simp: map_of_eq_None_iff)

lemma truthy_env_json: "truthy (env_json ev) \<longleftrightarrow> supplied ev \<noteq> []"
  by (cases ev) (simp_all add: env_json_def supplied_def)

lemma env_json_supplied: "supplied ev \<noteq> [] \<Longrightarrow> env_json ev = JObj (supplied ev)"
  by (cases ev) (simp_all add: env_json_def supplied_def)

lemma fold_update_map_of:
  "distinct (map fst new) \<Longrightarrow>
     map_of (fold (\<lambda>(k, v). AList.update k v) new old) = map_of old ++ map_of new"
proof (induction new arbitrary: old)
  case Nil
  then show ?case by simp
next
  case (Cons p new)
  obtain k v where p: "p = (k, v)" by (cases p)
  from Cons.prems p have d: "distinct (map fst new)" and k: "k \<notin> fst ` set new" by simp_all
  from k have none: "map_of new k = None" by (simp add: map_of_eq_None_iff)
  have "map_of (fold (\<lambda>(k, v). AList.update k v) (p # new) old)
          = map_of (AList.update k v old) ++ map_of new"
    using Cons.IH [OF d] p by simp
  also have "\<dots> = (map_of old)(k \<mapsto> v) ++ map_of new" by (simp add: update_conv')
  also have "\<dots> = map_of old ++ map_of (p # new)"
    using none p by (auto simp: map_add_def fun_eq_iff split: option.splits)
  finally show ?case .
qed

lemma update_nonempty: "AList.update k v al \<noteq> []"
  by (cases al) auto

lemma fold_update_nonempty:
  "old \<noteq> [] \<or> new \<noteq> [] \<Longrightarrow> fold (\<lambda>(k, v). AList.update k v) new old \<noteq> []"
proof (induction new arbitrary: old)
  case Nil
  then show ?case by simp
next
  case (Cons p new)
  obtain k v where p: "p = (k, v)" by (cases p)
  have "AList.update k v old \<noteq> []" by (rule update_nonempty)
  then have "fold (\<lambda>(k, v). AList.update k v) new (AList.update k v old) \<noteq> []"
    using Cons.IH by blast
  with p show ?case by simp
qed

lemma merged_env_existing:
  assumes "getitem servers sn = Inr entry" and "getitem entry ''env'' = Inr (JObj old)"
  shows "merged_env servers sn (env_json ev)
           = Inr (JObj (fold (\<lambda>(k, v). AList.update k v) (supplied ev) old))"
proof -
  from assms(1) obtain skvs where s: "servers = JObj skvs" "map_of skvs sn = Some entry"
    unfolding getitem_Inr by blast
  from assms(2) obtain ekvs where e: "entry = JObj ekvs" "map_of ekvs ''env'' = Some (JObj old)"
    unfolding getitem_Inr by blast
  have 1: "contains servers sn = Inr True" using s by (simp only: contains_JObj)
  have 2: "contains entry ''env'' = Inr True" using e by (simp only: contains_JObj)
  show ?thesis
  proof (cases "supplied ev = []")
    case True
    then have "\<not> truthy (env_json ev)" by (simp add: truthy_env_json)
    with 1 2 assms True show ?thesis by (simp add: merged_env_def bnd_def)
  next
    case False
    then have "truthy (env_json ev)" by (simp add: truthy_env_json)
    with 1 2 assms env_json_supplied [OF False] show ?thesis
      by (simp add: merged_env_def bnd_def)
  qed
qed

lemma new_config_steps:
  assumes "new_config os fsp sn we wp ev config0 = Inr config'"
  shows "\<exists>present config servers env spec servers'.
     contains config0 ''mcpServers'' = Inr present
    \<and> (if present then Inr config0 else setitem config0 ''mcpServers'' (JObj [])) = Inr config
    \<and> getitem config ''mcpServers'' = Inr servers
    \<and> merged_env servers sn (env_json ev) = Inr env
    \<and> resolve_file_spec os fsp = Inr spec
    \<and> setitem servers sn
              (JObj ([(''command'', JStr ''uv''),
                      (''args'', JArr (map JStr (uv_args we wp @ [''fastmcp'', ''run'', spec])))]
                     @ (if truthy env then [(''env'', env)] else []))) = Inr servers'
    \<and> setitem config ''mcpServers'' servers' = Inr config'"
  using assms by (simp only: new_config_def bnd_Inr Let_def) blast

lemma ensure_servers:
  assumes 1: "contains config0 ''mcpServers'' = Inr present"
    and 2: "(if present then Inr config0 else setitem config0 ''mcpServers'' (JObj [])) = Inr config"
    and 3: "getitem config ''mcpServers'' = Inr servers"
  shows "\<exists>ckvs. config0 = JObj ckvs \<and> servers_of config0 = servers \<and>
           config = JObj (if ''mcpServers'' \<in> fst ` set ckvs then ckvs
                          else AList.update ''mcpServers'' (JObj []) ckvs)"
proof (cases present)
  case True
  with 2 have c: "config = config0" by simp
  with 3 obtain ckvs where k: "config0 = JObj ckvs" and m: "map_of ckvs ''mcpServers'' = Some servers"
    unfolding getitem_Inr by blast
  from m have "''mcpServers'' \<in> fst ` set ckvs"
    using map_of_eq_None_iff [of ckvs "''mcpServers''"] by auto
  moreover from k m have "servers_of config0 = servers" by (simp add: servers_of_def)
  ultimately show ?thesis using c k by simp
next
  case False
  with 2 have "setitem config0 ''mcpServers'' (JObj []) = Inr config" by simp
  then obtain ckvs where k: "config0 = JObj ckvs"
    and c: "config = JObj (AList.update ''mcpServers'' (JObj []) ckvs)"
    unfolding setitem_Inr by blast
  from 1 k False have notin: "''mcpServers'' \<notin> fst ` set ckvs" by simp
  then have n: "map_of ckvs ''mcpServers'' = None" by (simp add: map_of_eq_None_iff)
  from 3 c have "servers = JObj []" by (simp add: update_conv')
  with n k have "servers_of config0 = servers" by (simp add: servers_of_def)
  with k c notin show ?thesis by simp
qed

lemma new_config_Inr:
  assumes "new_config os fsp sn we wp ev config0 = Inr config'"
  shows "\<exists>ckvs skvs env spec.
           config0 = JObj ckvs \<and> servers_of config0 = JObj skvs \<and>
           merged_env (JObj skvs) sn (env_json ev) = Inr env \<and>
           config' = JObj (AList.update ''mcpServers''
              (JObj (AList.update sn
                 (JObj ([(''command'', JStr ''uv''),
                         (''args'', JArr (map JStr (uv_args we wp @ [''fastmcp'', ''run'', spec])))]
                        @ (if truthy env then [(''env'', env)] else [])))
                 skvs))
              (if ''mcpServers'' \<in> fst ` set ckvs then ckvs
               else AList.update ''mcpServers'' (JObj []) ckvs))"
proof -
  from new_config_steps [OF assms] obtain present config servers env spec servers' where
    1: "contains config0 ''mcpServers'' = Inr present"
    and 2: "(if present then Inr config0 else setitem config0 ''mcpServers'' (JObj [])) = Inr config"
    and 3: "getitem config ''mcpServers'' = Inr servers"
    and 4: "merged_env servers sn (env_json ev) = Inr env"
    and 5: "resolve_file_spec os fsp = Inr spec"
    and 6: "setitem servers sn
              (JObj ([(''command'', JStr ''uv''),
                      (''args'', JArr (map JStr (uv_args we wp @ [''fastmcp'', ''run'', spec])))]
                     @ (if truthy env then [(''env'', env)] else []))) = Inr servers'"
    and 7: "setitem config ''mcpServers'' servers' = Inr config'"
    by blast
  from ensure_servers [OF 1 2 3] obtain ckvs where c0: "config0 = JObj ckvs"
    and so: "servers_of config0 = servers"
    and c1: "config = JObj (if ''mcpServers'' \<in> fst ` set ckvs then ckvs
                          else AList.update ''mcpServers'' (JObj []) ckvs)" by blast
  from 6 obtain skvs where s: "servers = JObj skvs"
    and s': "servers' = JObj (AList.update sn
                 (JObj ([(''command'', JStr ''uv''),
                         (''args'', JArr (map JStr (uv_args we wp @ [''fastmcp'', ''run'', spec])))]
                        @ (if truthy env then [(''env'', env)] else [])))
                 skvs)"
    unfolding setitem_Inr by blast
  from 7 c1 have c': "config' = JObj (AList.update ''mcpServers'' servers'
        (if ''mcpServers'' \<in> fst ` set ckvs then ckvs
                          else AList.update ''mcpServers'' (JObj []) ckvs))"
    unfolding setitem_Inr by simp
  from 4 s have m4: "merged_env (JObj skvs) sn (env_json ev) = Inr env" by simp
  from so s have so': "servers_of config0 = JObj skvs" by simp
  show ?thesis
    apply (rule exI [of _ ckvs], rule exI [of _ skvs], rule exI [of _ env], rule exI [of _ spec])
    using c0 so' m4 c' s' by simp
qed

lemma new_config_frame:
  assumes n: "new_config os fsp sn we wp ev config = Inr config'"
  shows "\<exists>servers' entry'.
           getitem config' ''mcpServers'' = Inr servers' \<and>
           getitem servers' sn = Inr entry' \<and>
           (\<forall>key. key \<noteq> ''mcpServers'' \<longrightarrow> getitem config' key = getitem config key) \<and>
           (\<forall>other. other \<noteq> sn \<longrightarrow>
              getitem servers' other = getitem (servers_of config) other) \<and>
           (\<forall>entry old.
              getitem (servers_of config) sn = Inr entry \<and>
              getitem entry ''env'' = Inr (JObj old) \<and>
              distinct (map fst (supplied ev)) \<and> (old \<noteq> [] \<or> supplied ev \<noteq> []) \<longrightarrow>
              (\<exists>env'. getitem entry' ''env'' = Inr (JObj env') \<and>
                      map_of env' = map_of old ++ map_of (supplied ev)))"
proof -
  from new_config_Inr [OF n] obtain ckvs skvs env spec where
    c: "config = JObj ckvs" and so: "servers_of config = JObj skvs"
    and me: "merged_env (JObj skvs) sn (env_json ev) = Inr env"
    and c': "config' = JObj (AList.update ''mcpServers''
              (JObj (AList.update sn
                 (JObj ([(''command'', JStr ''uv''),
                         (''args'', JArr (map JStr (uv_args we wp @ [''fastmcp'', ''run'', spec])))]
                        @ (if truthy env then [(''env'', env)] else [])))
                 skvs))
              (if ''mcpServers'' \<in> fst ` set ckvs then ckvs
               else AList.update ''mcpServers'' (JObj []) ckvs))"
    by blast
  let ?entry = "JObj ([(''command'', JStr ''uv''),
                       (''args'', JArr (map JStr (uv_args we wp @ [''fastmcp'', ''run'', spec])))]
                      @ (if truthy env then [(''env'', env)] else []))"
  let ?servers = "JObj (AList.update sn ?entry skvs)"
  have a: "getitem config' ''mcpServers'' = Inr ?servers"
    unfolding c' by (rule getitem_update_same)
  have b: "getitem ?servers sn = Inr ?entry" by (rule getitem_update_same)
  have k: "getitem config' key = getitem config key" if "key \<noteq> ''mcpServers''" for key
  proof -
    have "getitem config' key = getitem (JObj (if ''mcpServers'' \<in> fst ` set ckvs then ckvs
               else AList.update ''mcpServers'' (JObj []) ckvs)) key"
      unfolding c' using that by (rule getitem_update_other)
    also have "\<dots> = getitem config key"
      using that by (simp add: c update_conv')
    finally show ?thesis .
  qed
  have o: "getitem ?servers other = getitem (servers_of config) other" if "other \<noteq> sn" for other
    unfolding so using that by (rule getitem_update_other)
  have e: "\<exists>env'. getitem ?entry ''env'' = Inr (JObj env') \<and>
                  map_of env' = map_of old ++ map_of (supplied ev)"
    if "getitem (servers_of config) sn = Inr entry" and "getitem entry ''env'' = Inr (JObj old)"
      and "distinct (map fst (supplied ev))" and "old \<noteq> [] \<or> supplied ev \<noteq> []"
    for entry old
  proof -
    let ?env = "fold (\<lambda>(k, v). AList.update k v) (supplied ev) old"
    from merged_env_existing [OF that(1) [unfolded so] that(2), of ev] me
    have "env = JObj ?env" by simp
    moreover from fold_update_nonempty [OF that(4)] have "truthy (JObj ?env)" by simp
    ultimately have "getitem ?entry ''env'' = Inr (JObj ?env)" by simp
    with fold_update_map_of [OF that(3), of old] show ?thesis by blast
  qed
  from a b k o e show ?thesis by blast
qed

lemma update_True:
  assumes u: "update_claude_config os fsp sn we wp ev = (Inr True, os')"
    and g: "get_claude_config_path os = Inr (Some d)"
  shows "\<exists>config0 config'. read_json os (config_file d) = Inr config0 \<and>
           new_config os fsp sn we wp ev config0 = Inr config' \<and>
           write_json os (config_file d) config' = Inr os'"
proof -
  have e: "exists os (config_file d) = Inr True"
  proof (cases "exists os (config_file d)")
    case (Inl x)
    with u g show ?thesis by (simp add: update_claude_config_def)
  next
    case (Inr b)
    with u g show ?thesis by (cases b) (simp_all add: update_claude_config_def)
  qed
  have "bnd (bnd (read_json os (config_file d)) (new_config os fsp sn we wp ev))
      (write_json os (config_file d)) = Inr os'"
  proof (cases "bnd (bnd (read_json os (config_file d)) (new_config os fsp sn we wp ev))
      (write_json os (config_file d))")
    case (Inl x)
    with u update_after_probes [OF g e, of fsp sn we wp ev] show ?thesis by simp
  next
    case (Inr y)
    with u update_after_probes [OF g e, of fsp sn we wp ev] show ?thesis by simp
  qed
  then show ?thesis unfolding bnd_Inr by blast
qed

lemma old_servers_of: "servers_of old_config = old_servers"
  by (simp add: servers_of_def old_config_def)

section \<open>The claims\<close>

text \<open>
  Claim C1, as amended. For every template whose literal text has no regular-expression
  metacharacter and whose placeholders are distinct identifiers (\<open>plain\<close>), and every
  candidate URI without a newline: \<open>matches\<close> succeeds exactly on the URIs obtained by
  substituting a non-empty, slash-free string for each placeholder; the MatchResult lists
  the placeholders in template order, with non-empty slash-free values that substitute
  back to the URI; and it is the substituted values themselves when every placeholder is
  followed by \<^verbatim>\<open>/\<close> or ends the template (\<open>separated\<close>).
\<close>

theorem matches_plain_template:
  assumes "plain segs" and "uri_template t = render segs" and "newline \<notin> set u"
  shows "((\<exists>m. matches t u = Returned (Some m)) \<longleftrightarrow>
            (\<exists>\<sigma>. admissible \<sigma> (holes segs) \<and> u = instantiate \<sigma> segs)) \<and>
         (\<forall>m. matches t u = Returned (Some m) \<longrightarrow>
            map fst m = holes segs \<and> admissible (value_of m) (holes segs) \<and>
            u = instantiate (value_of m) segs) \<and>
         (\<forall>\<sigma>. separated segs \<and> admissible \<sigma> (holes segs) \<and> u = instantiate \<sigma> segs \<longrightarrow>
            matches t u = Returned (Some (map (\<lambda>n. (n, \<sigma> n)) (holes segs))))"
proof -
  note eq = matches_plain [OF assms(1,2), of u]
  from assms(1) have d: "distinct (holes segs)" by (simp add: plain_def)
  have sound: "map fst m = holes segs \<and> admissible (value_of m) (holes segs) \<and>
      u = instantiate (value_of m) segs" if "matches t u = Returned (Some m)" for m
  proof -
    from that eq have "rmatch (items segs @ [Eol]) True u = Some m" by simp
    from rmatch_sound [OF d this] assms(3) show ?thesis
      using no_trailing_newline [of u "instantiate (value_of m) segs"] by blast
  qed
  have complete: "\<exists>m. matches t u = Returned (Some m)"
    if "admissible \<sigma> (holes segs)" and "u = instantiate \<sigma> segs" for \<sigma>
  proof -
    from rmatch_complete [OF that(1), of True] that(2)
    obtain m where "rmatch (items segs @ [Eol]) True u = Some m" by auto
    with eq show ?thesis by simp
  qed
  have unique: "matches t u = Returned (Some (map (\<lambda>n. (n, \<sigma> n)) (holes segs)))"
    if sep: "separated segs" and adm: "admissible \<sigma> (holes segs)" and u: "u = instantiate \<sigma> segs"
    for \<sigma>
  proof -
    from complete [OF adm u] obtain m where m: "matches t u = Returned (Some m)" by blast
    from sound [OF m] have f: "map fst m = holes segs"
      and a: "admissible (value_of m) (holes segs)"
      and i: "u = instantiate (value_of m) segs" by simp_all
    have "value_of m n = \<sigma> n" if "n \<in> set (holes segs)" for n
      using instantiate_unique [OF sep a adm _ that] i u by simp
    from match_result_determined [OF f this d] m show ?thesis by simp
  qed
  from sound complete unique show ?thesis by blast
qed

theorem matches_plain_template_witness:
  "plain weather_segments \<and>
   uri_template (template_of get_weather ''weather://{city}/current'') = render weather_segments \<and>
   newline \<notin> set ''weather://paris/current'' \<and>
   separated weather_segments \<and>
   admissible (\<lambda>n. ''paris'') (holes weather_segments) \<and>
   ''weather://paris/current'' = instantiate (\<lambda>n. ''paris'') weather_segments \<and>
   matches (template_of get_weather ''weather://{city}/current'') ''weather://paris/current''
     = Returned (Some [(''city'', ''paris'')])"
proof -
  have p: "plain weather_segments" by code_simp
  have r: "uri_template (template_of get_weather ''weather://{city}/current'') = render weather_segments"
    by (simp add: template_of_def weather_segments_def)
  have n: "newline \<notin> set ''weather://paris/current''" by (simp add: newline_def)
  have s: "separated weather_segments" by (simp add: weather_segments_def)
  have h: "holes weather_segments = [''city'']" by (simp add: weather_segments_def)
  have a: "admissible (\<lambda>n. ''paris'') (holes weather_segments)" by (simp add: h admissible_def)
  have i: "''weather://paris/current'' = instantiate (\<lambda>n. ''paris'') weather_segments"
    by (simp add: weather_segments_def)
  from matches_plain_template [OF p r n] s a i
  have "matches (template_of get_weather ''weather://{city}/current'') ''weather://paris/current''
     = Returned (Some (map (\<lambda>n. (n, ''paris'')) (holes weather_segments)))" by blast
  with p r n s a i show ?thesis by (simp add: h)
qed

text \<open>
  The claim as stated fails where a value can hold the literal that follows its
  placeholder: for \<^verbatim>\<open>{x}-{y}\<close>, substituting \<^verbatim>\<open>a\<close> and \<^verbatim>\<open>b-c\<close> gives
  \<^verbatim>\<open>a-b-c\<close>, from which the greedy groups recover \<^verbatim>\<open>a-b\<close> and \<^verbatim>\<open>c\<close>.
  (Outside the plain templates and the URIs without a newline, see also
  \<open>matches_dot_example\<close> and \<open>matches_trailing_newline_example\<close>.)
\<close>

theorem matches_recovery_counterexample:
  "plain [Hole ''x'', Lit (CHR ''-''), Hole ''y''] \<and>
   admissible ((\<lambda>n. ''a'')(''y'' := ''b-c'')) [''x'', ''y''] \<and>
   instantiate ((\<lambda>n. ''a'')(''y'' := ''b-c'')) [Hole ''x'', Lit (CHR ''-''), Hole ''y''] = ''a-b-c'' \<and>
   render [Hole ''x'', Lit (CHR ''-''), Hole ''y''] = ''{x}-{y}'' \<and>
   matches (template_of get_weather ''{x}-{y}'') ''a-b-c''
     = Returned (Some [(''x'', ''a-b''), (''y'', ''c'')])"
proof -
  have 1: "plain [Hole ''x'', Lit (CHR ''-''), Hole ''y'']" by code_simp
  have 2: "admissible ((\<lambda>n. ''a'')(''y'' := ''b-c'')) [''x'', ''y'']" by (simp add: admissible_def)
  have 3: "instantiate ((\<lambda>n. ''a'')(''y'' := ''b-c'')) [Hole ''x'', Lit (CHR ''-''), Hole ''y''] = ''a-b-c''"
    by simp
  have 4: "render [Hole ''x'', Lit (CHR ''-''), Hole ''y''] = ''{x}-{y}''" by simp
  have 5: "re_match (''^'' @ pattern_of ''{x}-{y}'' @ ''$'') ''a-b-c''
     = Returned (Some [(''x'', ''a-b''), (''y'', ''c'')])" by code_simp
  from 1 2 3 4 5 show ?thesis by (simp add: matches_def template_of_def)
qed

text \<open>
  Claim C2, as amended. \<^verbatim>\<open>from_function\<close> does not inspect the template string: for
  any two template strings it fails with the same error or succeeds with the same
  template but for the string, which is stored as given.
\<close>

theorem from_function_ignores_template:
  "from_function fn ut nm d mt =
     map_sum id (\<lambda>t. t\<lparr>uri_template := ut\<rparr>) (from_function fn ut' nm d mt)"
  by (simp add: from_function_def split: sum.splits option.splits)

text \<open>
  The claim as stated fails: a template with a repeated placeholder, or with an unclosed
  brace, is accepted.
\<close>

theorem from_function_accepts_malformed_counterexample:
  "map_sum exn_class uri_template (from_function get_weather ''a/{x}/{x}'' None None None)
     = Inr ''a/{x}/{x}'' \<and>
   map_sum exn_class uri_template (from_function get_weather ''a/{x'' None None None)
     = Inr ''a/{x''"
  by (simp add: from_function_def get_weather_def truthy_str_def)

text \<open>
  Claim C3, as amended. For every plain template and every candidate URI, \<open>matches\<close>
  returns (a MatchResult or None) and does not raise; for a URI without a newline it
  returns None exactly when no substitution of non-empty, slash-free strings for the
  placeholders gives the URI.
\<close>

theorem matches_never_raises_plain:
  assumes "plain segs" and "uri_template t = render segs"
  shows "(\<exists>r. matches t u = Returned r) \<and>
         (newline \<notin> set u \<longrightarrow>
            (matches t u = Returned None \<longleftrightarrow>
               \<not> (\<exists>\<sigma>. admissible \<sigma> (holes segs) \<and> u = instantiate \<sigma> segs)))"
proof -
  note eq = matches_plain [OF assms, of u]
  from assms(1) have d: "distinct (holes segs)" by (simp add: plain_def)
  have "matches t u = Returned None \<longleftrightarrow>
          \<not> (\<exists>\<sigma>. admissible \<sigma> (holes segs) \<and> u = instantiate \<sigma> segs)"
    if nl: "newline \<notin> set u"
  proof
    assume none: "matches t u = Returned None"
    show "\<not> (\<exists>\<sigma>. admissible \<sigma> (holes segs) \<and> u = instantiate \<sigma> segs)"
    proof
      assume "\<exists>\<sigma>. admissible \<sigma> (holes segs) \<and> u = instantiate \<sigma> segs"
      then obtain \<sigma> where "admissible \<sigma> (holes segs)" "u = instantiate \<sigma> segs" by blast
      with rmatch_complete [of \<sigma> segs True] have "rmatch (items segs @ [Eol]) True u \<noteq> None"
        by simp
      with eq none show False by simp
    qed
  next
    assume no: "\<not> (\<exists>\<sigma>. admissible \<sigma> (holes segs) \<and> u = instantiate \<sigma> segs)"
    show "matches t u = Returned None"
    proof (cases "rmatch (items segs @ [Eol]) True u")
      case None
      with eq show ?thesis by simp
    next
      case (Some m)
      from rmatch_sound [OF d Some] nl
      have "admissible (value_of m) (holes segs) \<and> u = instantiate (value_of m) segs"
        using no_trailing_newline [of u "instantiate (value_of m) segs"] by blast
      with no show ?thesis by blast
    qed
  qed
  with eq show ?thesis by simp
qed

theorem matches_never_raises_plain_witness:
  "plain weather_segments \<and>
   uri_template (template_of get_weather ''weather://{city}/current'') = render weather_segments \<and>
   newline \<notin> set ''weather://paris'' \<and>
   matches (template_of get_weather ''weather://{city}/current'') ''weather://paris'' = Returned None \<and>
   \<not> (\<exists>\<sigma>. admissible \<sigma> (holes weather_segments) \<and> ''weather://paris'' = instantiate \<sigma> weather_segments)"
proof -
  have p: "plain weather_segments" by code_simp
  have r: "uri_template (template_of get_weather ''weather://{city}/current'') = render weather_segments"
    by (simp add: template_of_def weather_segments_def)
  have n: "newline \<notin> set ''weather://paris''" by (simp add: newline_def)
  have m: "re_match (''^'' @ pattern_of ''weather://{city}/current'' @ ''$'') ''weather://paris'' = Returned None"
    by code_simp
  then have m': "matches (template_of get_weather ''weather://{city}/current'') ''weather://paris'' = Returned None"
    by (simp add: matches_def template_of_def)
  from matches_never_raises_plain [OF p r, of "''weather://paris''"] n m'
  have "\<not> (\<exists>\<sigma>. admissible \<sigma> (holes weather_segments) \<and> ''weather://paris'' = instantiate \<sigma> weather_segments)"
    by blast
  with p r n m' show ?thesis by blast
qed

text \<open>
  The claim as stated fails: on a template with a repeated placeholder, or with an
  unclosed brace, \<^verbatim>\<open>re.match\<close> raises \<^verbatim>\<open>re.error\<close> for every URI.
\<close>

theorem matches_raises_counterexample:
  "matches (template_of get_weather ''a/{x}/{x}'') ''a/1/2'' = Raised (Redefinition ''x'') \<and>
   matches (template_of get_weather ''a/{x'') ''a/1'' = Raised UnterminatedName"
proof -
  have 1: "re_match (''^'' @ pattern_of ''a/{x}/{x}'' @ ''$'') ''a/1/2'' = Raised (Redefinition ''x'')"
    by code_simp
  have 2: "re_match (''^'' @ pattern_of ''a/{x'' @ ''$'') ''a/1'' = Raised UnterminatedName"
    by code_simp
  from 1 2 show ?thesis by (simp add: matches_def template_of_def)
qed

text \<open>
  Claim C4. When \<^verbatim>\<open>create_resource\<close> succeeds, the Resource has the candidate URI as
  its \<^verbatim>\<open>uri\<close> and the name, description and MIME type of the template; and the
  arguments were accepted, the producer's body, run on them in the world of the call,
  returned a value \<open>v\<close> (directly, or through the coroutine it returned, awaited), and
  the accessor returns this \<open>v\<close> in every state.
\<close>

theorem create_resource_fields:
  assumes "create_resource t u params s = (Inr r, s')"
  shows "res_uri r = u \<and> res_name r = name t \<and> res_description r = description t \<and>
         res_mime_type r = mime_type t \<and>
         (\<exists>args v.
            (if validated (func t) then validate (func t) params else bind (func t) params)
              = Inr args \<and>
            (body (func t) args (world s) = (Inr (Plain v), world s') \<or>
             (\<exists>co w. body (func t) args (world s) = (Inr (Coroutine co), w) \<and>
                     co w = (Inr v, world s'))) \<and>
            (\<forall>s0. read r s0 = (Inr v, s0)))"
proof -
  from assms obtain v where c: "call_and_await (func t) params s = (Inr v, s')"
    and r: "r = \<lparr>res_uri = u, res_name = name t, res_description = description t,
               res_mime_type = mime_type t, res_func = (\<lambda>s0. (Inr v, s0))\<rparr>"
    unfolding create_resource_Inr by blast
  from r have rd: "\<forall>s0. read r s0 = (Inr v, s0)" by (simp add: read_def)
  from c obtain args w where
    a: "(if validated (func t) then validate (func t) params else bind (func t) params) = Inr args"
    and b: "(body (func t) args (world s) = (Inr (Plain v), w) \<and>
               s' = s\<lparr>world := w, calls := calls s @ [args]\<rparr>) \<or>
            (\<exists>co w'. body (func t) args (world s) = (Inr (Coroutine co), w) \<and>
               co w = (Inr v, w') \<and> s' = s\<lparr>world := w', calls := calls s @ [args]\<rparr>)"
    unfolding call_and_await_Inr by blast
  from b have "body (func t) args (world s) = (Inr (Plain v), world s') \<or>
             (\<exists>co w. body (func t) args (world s) = (Inr (Coroutine co), w) \<and>
                     co w = (Inr v, world s'))"
    by auto
  with a rd r show ?thesis by auto
qed

theorem create_resource_fields_witness:
  "create_resource (template_of tick ''tick://{city}'') ''tick://a'' [(''city'', VStr ''a'')] later
     = (Inr (resource_of ''tick://a'' ''tick'' (VInt 5)),
        \<lparr>world = 6, calls = [[(''city'', VStr ''a'')]]\<rparr>) \<and>
   res_uri (resource_of ''tick://a'' ''tick'' (VInt 5)) = ''tick://a'' \<and>
   res_name (resource_of ''tick://a'' ''tick'' (VInt 5)) = name (template_of tick ''tick://{city}'') \<and>
   body (func (template_of tick ''tick://{city}'')) [(''city'', VStr ''a'')] (world later)
     = (Inr (Plain (VInt 5)), 6) \<and>
   read (resource_of ''tick://a'' ''tick'' (VInt 5)) start = (Inr (VInt 5), start) \<and>
   create_resource (template_of fetch ''weather://{city}/current'') ''weather://paris/current''
      [(''city'', VStr ''paris'')] later
     = (Inr (resource_of ''weather://paris/current'' ''fetch'' (VStr ''rain'')),
        \<lparr>world = 6, calls = [[(''city'', VStr ''paris'')]]\<rparr>) \<and>
   res_uri (resource_of ''weather://paris/current'' ''fetch'' (VStr ''rain''))
     = ''weather://paris/current'' \<and>
   read (resource_of ''weather://paris/current'' ''fetch'' (VStr ''rain'')) start
     = (Inr (VStr ''rain''), start) \<and>
   create_resource (template_of get_weather ''weather://{city}/current'')
      ''weather://paris/current'' [(''city'', VStr ''paris'')] start
     = (Inr (resource_of ''weather://paris/current'' ''get_weather'' (VStr ''sunny'')),
        \<lparr>world = 0, calls = [[(''city'', VStr ''paris'')]]\<rparr>) \<and>
   read (resource_of ''weather://paris/current'' ''get_weather'' (VStr ''sunny'')) later
     = (Inr (VStr ''sunny''), later)"
proof -
  note t = create_resource_fields [OF tick_created]
  note f = create_resource_fields [OF fetch_created]
  note g = create_resource_fields [OF sunny_created]
  from t have t1: "res_uri (resource_of ''tick://a'' ''tick'' (VInt 5)) = ''tick://a''"
    and t2: "res_name (resource_of ''tick://a'' ''tick'' (VInt 5))
               = name (template_of tick ''tick://{city}'')" by blast+
  from f have f1: "res_uri (resource_of ''weather://paris/current'' ''fetch'' (VStr ''rain''))
     = ''weather://paris/current''" by blast
  have b: "body (func (template_of tick ''tick://{city}'')) [(''city'', VStr ''a'')] (world later)
     = (Inr (Plain (VInt 5)), 6)"
    by (simp add: template_of_def tick_def validate_call_def later_def)
  from t obtain v where tv: "\<forall>s0. read (resource_of ''tick://a'' ''tick'' (VInt 5)) s0 = (Inr v, s0)"
    by blast
  then have "v = VInt 5" by (simp add: read_def resource_of_def)
  with tv have t3: "read (resource_of ''tick://a'' ''tick'' (VInt 5)) start = (Inr (VInt 5), start)"
    by simp
  from f obtain v' where fv: "\<forall>s0. read (resource_of ''weather://paris/current'' ''fetch'' (VStr ''rain'')) s0 = (Inr v', s0)"
    by blast
  then have "v' = VStr ''rain''" by (simp add: read_def resource_of_def)
  with fv have f2: "read (resource_of ''weather://paris/current'' ''fetch'' (VStr ''rain'')) start
     = (Inr (VStr ''rain''), start)" by simp
  from g obtain v'' where gv: "\<forall>s0. read (resource_of ''weather://paris/current'' ''get_weather'' (VStr ''sunny'')) s0 = (Inr v'', s0)"
    by blast
  then have "v'' = VStr ''sunny''" by (simp add: read_def resource_of_def)
  with gv have g2: "read (resource_of ''weather://paris/current'' ''get_weather'' (VStr ''sunny'')) later
     = (Inr (VStr ''sunny''), later)" by simp
  from tick_created fetch_created sunny_created t1 t2 b t3 f1 f2 g2 show ?thesis by blast
qed

text \<open>
  Claim C5. When \<^verbatim>\<open>create_resource\<close> succeeds, the producer's body was invoked
  exactly once, on the accepted arguments (the log of invocations grew by this one
  entry); the value \<open>v\<close> it returned in the world of the call is what every read of the
  Resource returns, in whatever state and however the world has changed since, also when
  read again; and a read leaves the state as it was: it invokes nothing.
\<close>

theorem resource_content_fixed:
  assumes "create_resource t u params s = (Inr r, s')"
  shows "\<exists>args v.
           (if validated (func t) then validate (func t) params else bind (func t) params)
             = Inr args \<and>
           calls s' = calls s @ [args] \<and>
           (body (func t) args (world s) = (Inr (Plain v), world s') \<or>
            (\<exists>co w. body (func t) args (world s) = (Inr (Coroutine co), w) \<and>
                    co w = (Inr v, world s'))) \<and>
           (\<forall>s1. read r s1 = (Inr v, s1)) \<and>
           (\<forall>s1. read r (snd (read r s1)) = (Inr v, s1))"
proof -
  from assms obtain v where c: "call_and_await (func t) params s = (Inr v, s')"
    and r: "r = \<lparr>res_uri = u, res_name = name t, res_description = description t,
               res_mime_type = mime_type t, res_func = (\<lambda>s0. (Inr v, s0))\<rparr>"
    unfolding create_resource_Inr by blast
  from r have rd: "\<forall>s1. read r s1 = (Inr v, s1)" by (simp add: read_def)
  then have rd2: "\<forall>s1. read r (snd (read r s1)) = (Inr v, s1)" by simp
  from c obtain args w where
    a: "(if validated (func t) then validate (func t) params else bind (func t) params) = Inr args"
    and b: "(body (func t) args (world s) = (Inr (Plain v), w) \<and>
               s' = s\<lparr>world := w, calls := calls s @ [args]\<rparr>) \<or>
            (\<exists>co w'. body (func t) args (world s) = (Inr (Coroutine co), w) \<and>
               co w = (Inr v, w') \<and> s' = s\<lparr>world := w', calls := calls s @ [args]\<rparr>)"
    unfolding call_and_await_Inr by blast
  from b have l: "calls s' = calls s @ [args]" by auto
  from b have "body (func t) args (world s) = (Inr (Plain v), world s') \<or>
             (\<exists>co w. body (func t) args (world s) = (Inr (Coroutine co), w) \<and>
                     co w = (Inr v, world s'))"
    by auto
  with a l rd rd2 show ?thesis by blast
qed

theorem resource_content_fixed_witness:
  "create_resource (template_of tick ''tick://{city}'') ''tick://a'' [(''city'', VStr ''a'')] later
     = (Inr (resource_of ''tick://a'' ''tick'' (VInt 5)),
        \<lparr>world = 6, calls = [[(''city'', VStr ''a'')]]\<rparr>) \<and>
   calls \<lparr>world = 6::nat, calls = [[(''city'', VStr ''a'')]]\<rparr> = calls later @ [[(''city'', VStr ''a'')]] \<and>
   body (func (template_of tick ''tick://{city}'')) [(''city'', VStr ''a'')] 5
     = (Inr (Plain (VInt 5)), 6) \<and>
   body (func (template_of tick ''tick://{city}'')) [(''city'', VStr ''a'')] 6
     = (Inr (Plain (VInt 6)), 7) \<and>
   read (resource_of ''tick://a'' ''tick'' (VInt 5)) \<lparr>world = 6, calls = [[(''city'', VStr ''a'')]]\<rparr>
     = (Inr (VInt 5), \<lparr>world = 6, calls = [[(''city'', VStr ''a'')]]\<rparr>) \<and>
   read (resource_of ''tick://a'' ''tick'' (VInt 5)) \<lparr>world = 9, calls = []\<rparr>
     = (Inr (VInt 5), \<lparr>world = 9, calls = []\<rparr>)"
proof -
  from resource_content_fixed [OF tick_created] obtain args v where
    l: "calls \<lparr>world = 6::nat, calls = [[(''city'', VStr ''a'')]]\<rparr> = calls later @ [args]"
    and rd: "\<forall>s1. read (resource_of ''tick://a'' ''tick'' (VInt 5)) s1 = (Inr v, s1)"
    by blast
  from l have args: "args = [(''city'', VStr ''a'')]" by (simp add: later_def)
  from rd have "v = VInt 5" by (simp add: read_def resource_of_def)
  with rd have r1: "read (resource_of ''tick://a'' ''tick'' (VInt 5)) \<lparr>world = 6, calls = [[(''city'', VStr ''a'')]]\<rparr>
     = (Inr (VInt 5), \<lparr>world = 6, calls = [[(''city'', VStr ''a'')]]\<rparr>)"
    and r2: "read (resource_of ''tick://a'' ''tick'' (VInt 5)) \<lparr>world = 9, calls = []\<rparr>
     = (Inr (VInt 5), \<lparr>world = 9, calls = []\<rparr>)" by simp_all
  have b1: "body (func (template_of tick ''tick://{city}'')) [(''city'', VStr ''a'')] 5
     = (Inr (Plain (VInt 5)), 6)"
    and b2: "body (func (template_of tick ''tick://{city}'')) [(''city'', VStr ''a'')] 6
     = (Inr (Plain (VInt 6)), 7)"
    by (simp_all add: template_of_def tick_def validate_call_def)
  from tick_created l args b1 b2 r1 r2 show ?thesis by simp
qed

text \<open>
  Claim C6, as amended. For a template made by \<^verbatim>\<open>from_function\<close>, when the validation
  of the parameters against the producer's annotated types fails with \<open>e\<close>,
  \<^verbatim>\<open>create_resource\<close> raises a \<^verbatim>\<open>ValueError\<close> whose text is
  \<^verbatim>\<open>Error creating resource from template: \<close> followed by \<^verbatim>\<open>str(e)\<close> and whose
  context is \<open>e\<close>, the same error a failing producer gives, and the state with its log of
  invocations is unchanged: the producer's body was not invoked.
\<close>

theorem validation_failure_skips_producer:
  assumes "from_function fn ut nm d mt = Inr t"
    and "validate fn params = Inl e" and "is_Exception e"
  shows "create_resource t u params s =
           (Inl (ValueError (''Error creating resource from template: '' @ exn_str e) (Some e)), s) \<and>
         calls (snd (create_resource t u params s)) = calls s"
proof -
  from assms(1) have f: "func t = validate_call fn"
    by (auto simp: from_function_def split: sum.splits if_splits option.splits)
  have "call (func t) params s = (Inl e, s)"
    using assms(2) by (simp add: f call_def validate_call_def)
  then have "call_and_await (func t) params s = (Inl e, s)"
    by (simp add: call_and_await_def)
  then show ?thesis using assms(3) by (simp add: create_resource_def handler_def)
qed

theorem validation_failure_skips_producer_witness:
  "from_function by_id ''item://{n}'' None None None
     = Inr (template_of by_id ''item://{n}''\<lparr>parameters := [(''n'', ''integer'')]\<rparr>) \<and>
   validate by_id [(''n'', VStr ''abc'')] = Inl (ValidationError ''Input should be a valid integer'') \<and>
   is_Exception (ValidationError ''Input should be a valid integer'') \<and>
   create_resource (template_of by_id ''item://{n}''\<lparr>parameters := [(''n'', ''integer'')]\<rparr>)
       ''item://abc'' [(''n'', VStr ''abc'')] start
     = (Inl (ValueError ''Error creating resource from template: Input should be a valid integer''
              (Some (ValidationError ''Input should be a valid integer''))), start) \<and>
   calls start = []"
proof -
  have 1: "from_function by_id ''item://{n}'' None None None
     = Inr (template_of by_id ''item://{n}''\<lparr>parameters := [(''n'', ''integer'')]\<rparr>)"
    by (simp add: from_function_def by_id_def template_of_def truthy_str_def)
  have 2: "validate by_id [(''n'', VStr ''abc'')] = Inl (ValidationError ''Input should be a valid integer'')"
    by (simp add: by_id_def int_arg_def is_digits_def)
  have 3: "is_Exception (ValidationError ''Input should be a valid integer'')"
    by (simp add: ValidationError_def)
  from validation_failure_skips_producer [OF 1 2 3, of "''item://abc''" start] 1 2 3
  show ?thesis by (simp add: ValidationError_def start_def)
qed

text \<open>
  The claim as stated fails: the error raised for a refused parameter is not of a kind
  of its own. It is the \<^verbatim>\<open>ValueError\<close>, with the same text and the same context, that
  is raised when the code of a producer fails with that validation error.
\<close>

theorem validation_failure_kind_counterexample:
  "fst (create_resource (template_of by_id ''item://{n}'') ''item://x1'' [(''n'', VStr ''x1'')] start)
     = Inl (PyExn ''ValueError''
              ''Error creating resource from template: Input should be a valid integer''
              (Some (ValidationError ''Input should be a valid integer'')) True) \<and>
   fst (create_resource (template_of broken ''item://{n}'') ''item://x1'' [(''n'', VStr ''x1'')] start)
     = Inl (PyExn ''ValueError''
              ''Error creating resource from template: Input should be a valid integer''
              (Some (ValidationError ''Input should be a valid integer'')) True)"
  by (simp add: create_resource_def call_and_await_def call_def template_of_def broken_def by_id_def
      validate_call_def str_arg_def int_arg_def is_digits_def start_def handler_def
      ValidationError_def ValueError_def)




text \<open>
  Claim C8. With no explicit name, \<^verbatim>\<open>from_function\<close> names the template after the
  producer (when its schema can be derived), and fails with the \<^verbatim>\<open>ValueError\<close>
  \<^verbatim>\<open>You must provide a name for lambda functions\<close> when the producer is a lambda.
\<close>

theorem from_function_name:
  "(dunder_name fn = Some n \<and> n \<noteq> ''<lambda>'' \<and> json_schema fn = Inr ps \<longrightarrow>
      (\<exists>t. from_function fn ut None d mt = Inr t \<and> name t = n)) \<and>
   (dunder_name fn = Some ''<lambda>'' \<longrightarrow>
      from_function fn ut None d mt
        = Inl (ValueError ''You must provide a name for lambda functions'' None))"
  by (simp add: from_function_def truthy_str_def)

theorem from_function_name_witness:
  "dunder_name get_weather = Some ''get_weather'' \<and> ''get_weather'' \<noteq> ''<lambda>'' \<and>
   json_schema get_weather = Inr [(''city'', ''string'')] \<and>
   (\<exists>t. from_function get_weather ''weather://{city}/current'' None None None = Inr t \<and>
        name t = ''get_weather'') \<and>
   dunder_name anonymous = Some ''<lambda>'' \<and>
   from_function anonymous ''weather://{city}/current'' None None None
     = Inl (ValueError ''You must provide a name for lambda functions'' None)"
proof -
  have 1: "dunder_name get_weather = Some ''get_weather''" by (simp add: get_weather_def)
  have 2: "''get_weather'' \<noteq> ''<lambda>''" by simp
  have 3: "json_schema get_weather = Inr [(''city'', ''string'')]" by (simp add: get_weather_def)
  have 4: "dunder_name anonymous = Some ''<lambda>''" by (simp add: anonymous_def)
  from from_function_name [of get_weather "''get_weather''" "[(''city'', ''string'')]"
      "''weather://{city}/current''" None None] 1 2 3
  have 5: "\<exists>t. from_function get_weather ''weather://{city}/current'' None None None = Inr t \<and>
        name t = ''get_weather''" by blast
  from from_function_name [of anonymous _ _ "''weather://{city}/current''" None None] 4
  have 6: "from_function anonymous ''weather://{city}/current'' None None None
     = Inl (ValueError ''You must provide a name for lambda functions'' None)" by blast
  from 1 2 3 4 5 6 show ?thesis by blast
qed

text \<open>
  Claim C9. When \<^verbatim>\<open>update_claude_config\<close> succeeds, the configuration written has an
  entry for the server; every other key of the configuration and the entry of every
  other server are as they were (whether or not the server had an entry, with or without
  an \<^verbatim>\<open>env\<close>); and when the server had an entry with an \<^verbatim>\<open>env\<close> dict, the new
  entry's \<^verbatim>\<open>env\<close> is the old variables overridden by the supplied ones (whenever
  there is any variable at all).
\<close>

theorem update_keeps_env_and_other_servers:
  assumes "update_claude_config os fsp sn we wp ev = (Inr True, os')"
    and "get_claude_config_path os = Inr (Some d)"
    and "fs os (config_file d) = Some (File (Json config))"
  shows "\<exists>config' servers' entry'.
           fs os' (config_file d) = Some (File (Json config')) \<and>
           getitem config' ''mcpServers'' = Inr servers' \<and>
           getitem servers' sn = Inr entry' \<and>
           (\<forall>key. key \<noteq> ''mcpServers'' \<longrightarrow> getitem config' key = getitem config key) \<and>
           (\<forall>other. other \<noteq> sn \<longrightarrow>
              getitem servers' other = getitem (servers_of config) other) \<and>
           (\<forall>entry old.
              getitem (servers_of config) sn = Inr entry \<and>
              getitem entry ''env'' = Inr (JObj old) \<and>
              distinct (map fst (supplied ev)) \<and> (old \<noteq> [] \<or> supplied ev \<noteq> []) \<longrightarrow>
              (\<exists>env'. getitem entry' ''env'' = Inr (JObj env') \<and>
                      map_of env' = map_of old ++ map_of (supplied ev)))"
proof -
  let ?p = "config_file d"
  from update_True [OF assms(1,2)] obtain config0 config' where
    r: "read_json os ?p = Inr config0"
    and n: "new_config os fsp sn we wp ev config0 = Inr config'"
    and w: "write_json os ?p config' = Inr os'" by blast
  from r assms(3) have "config0 = config" by (simp add: read_json_def split: if_splits)
  with n have n': "new_config os fsp sn we wp ev config = Inr config'" by simp
  from w have "os' = os\<lparr>fs := (fs os)(?p \<mapsto> File (Json config'))\<rparr>"
    by (simp add: write_json_def split: if_splits)
  then have f: "fs os' ?p = Some (File (Json config'))" by simp
  from new_config_frame [OF n'] obtain servers' entry' where
    "getitem config' ''mcpServers'' = Inr servers' \<and>
           getitem servers' sn = Inr entry' \<and>
           (\<forall>key. key \<noteq> ''mcpServers'' \<longrightarrow> getitem config' key = getitem config key) \<and>
           (\<forall>other. other \<noteq> sn \<longrightarrow>
              getitem servers' other = getitem (servers_of config) other) \<and>
           (\<forall>entry old.
              getitem (servers_of config) sn = Inr entry \<and>
              getitem entry ''env'' = Inr (JObj old) \<and>
              distinct (map fst (supplied ev)) \<and> (old \<noteq> [] \<or> supplied ev \<noteq> []) \<longrightarrow>
              (\<exists>env'. getitem entry' ''env'' = Inr (JObj env') \<and>
                      map_of env' = map_of old ++ map_of (supplied ev)))"
    by blast
  with f show ?thesis by blast
qed

theorem update_keeps_env_and_other_servers_witness:
  "fst (update_claude_config mac ''server.py'' ''demo'' None None
          (Some [(''B'', ''3''), (''C'', ''4'')])) = Inr True \<and>
   get_claude_config_path mac = Inr (Some mac_dir) \<and>
   fs mac (config_file mac_dir) = Some (File (Json old_config)) \<and>
   getitem (servers_of old_config) ''demo'' = Inr demo_entry \<and>
   getitem demo_entry ''env'' = Inr (JObj [(''A'', JStr ''1''), (''B'', JStr ''2'')]) \<and>
   distinct (map fst (supplied (Some [(''B'', ''3''), (''C'', ''4'')]))) \<and>
   (\<exists>config' servers' entry' env'.
      fs (snd (update_claude_config mac ''server.py'' ''demo'' None None
                 (Some [(''B'', ''3''), (''C'', ''4'')]))) (config_file mac_dir)
        = Some (File (Json config')) \<and>
      getitem config' ''mcpServers'' = Inr servers' \<and>
      getitem servers' ''demo'' = Inr entry' \<and>
      getitem entry' ''env'' = Inr (JObj env') \<and>
      map_of env' ''A'' = Some (JStr ''1'') \<and>
      map_of env' ''B'' = Some (JStr ''3'') \<and>
      map_of env' ''C'' = Some (JStr ''4'') \<and>
      getitem servers' ''other'' = Inr (JObj [(''command'', JStr ''node'')]) \<and>
      getitem servers' ''bare'' = Inr (JObj [(''command'', JStr ''uv'')]) \<and>
      getitem config' ''theme'' = Inr (JStr ''dark'')) \<and>
   fst (update_claude_config mac ''server.py'' ''bare'' None None None) = Inr True \<and>
   (\<exists>config' servers'.
      fs (snd (update_claude_config mac ''server.py'' ''bare'' None None None))
         (config_file mac_dir) = Some (File (Json config')) \<and>
      getitem config' ''mcpServers'' = Inr servers' \<and>
      getitem servers' ''demo'' = Inr demo_entry \<and>
      getitem servers' ''other'' = Inr (JObj [(''command'', JStr ''node'')]))"
proof -
  let ?ev = "Some [(''B'', ''3''), (''C'', ''4'')]"
  let ?r = "update_claude_config mac ''server.py'' ''demo'' None None ?ev"
  let ?q = "update_claude_config mac ''server.py'' ''bare'' None None None"
  have r0: "?r = (Inr True, snd ?r)" using demo_updated by (simp add: prod_eq_iff)
  have q0: "?q = (Inr True, snd ?q)" using bare_updated by (simp add: prod_eq_iff)
  have p4: "getitem (servers_of old_config) ''demo'' = Inr demo_entry"
    by (simp add: old_servers_of old_servers_def)
  have p5: "getitem demo_entry ''env'' = Inr (JObj [(''A'', JStr ''1''), (''B'', JStr ''2'')])"
    by (simp add: demo_entry_def)
  have p6: "distinct (map fst (supplied ?ev))" by (simp add: supplied_def)
  have pre: "getitem (servers_of old_config) ''demo'' = Inr demo_entry \<and>
      getitem demo_entry ''env'' = Inr (JObj [(''A'', JStr ''1''), (''B'', JStr ''2'')]) \<and>
      distinct (map fst (supplied ?ev)) \<and>
      ([(''A'', JStr ''1''), (''B'', JStr ''2'')] \<noteq> [] \<or> supplied ?ev \<noteq> [])"
    using p4 p5 p6 by simp
  note th = update_keeps_env_and_other_servers [OF r0 mac_path mac_file]
  from th obtain config' servers' entry' where
    a: "fs (snd ?r) (config_file mac_dir) = Some (File (Json config'))"
    and b: "getitem config' ''mcpServers'' = Inr servers'"
    and c: "getitem servers' ''demo'' = Inr entry'"
    and f: "\<forall>key. key \<noteq> ''mcpServers'' \<longrightarrow> getitem config' key = getitem old_config key"
    and e: "\<forall>other. other \<noteq> ''demo'' \<longrightarrow>
              getitem servers' other = getitem (servers_of old_config) other"
    and d: "\<forall>entry old.
              getitem (servers_of old_config) ''demo'' = Inr entry \<and>
              getitem entry ''env'' = Inr (JObj old) \<and>
              distinct (map fst (supplied ?ev)) \<and> (old \<noteq> [] \<or> supplied ?ev \<noteq> []) \<longrightarrow>
              (\<exists>env'. getitem entry' ''env'' = Inr (JObj env') \<and>
                      map_of env' = map_of old ++ map_of (supplied ?ev))"
    by (elim exE conjE) (rule that)
  from d [rule_format, OF pre] obtain env' where g: "getitem entry' ''env'' = Inr (JObj env')"
    and h: "map_of env' = map_of [(''A'', JStr ''1''), (''B'', JStr ''2'')] ++ map_of (supplied ?ev)"
    by (elim exE conjE) (rule that)
  have h1: "map_of env' ''A'' = Some (JStr ''1'')" by (simp add: h supplied_def)
  have h2: "map_of env' ''B'' = Some (JStr ''3'')" by (simp add: h supplied_def)
  have h3: "map_of env' ''C'' = Some (JStr ''4'')" by (simp add: h supplied_def)
  from e [rule_format, of "''other''"]
  have e1: "getitem servers' ''other'' = Inr (JObj [(''command'', JStr ''node'')])"
    by (simp add: old_servers_of old_servers_def)
  from e [rule_format, of "''bare''"]
  have e2: "getitem servers' ''bare'' = Inr (JObj [(''command'', JStr ''uv'')])"
    by (simp add: old_servers_of old_servers_def)
  from f [rule_format, of "''theme''"]
  have f': "getitem config' ''theme'' = Inr (JStr ''dark'')" by (simp add: old_config_def)
  have first:
    "\<exists>config' servers' entry' env'.
      fs (snd ?r) (config_file mac_dir) = Some (File (Json config')) \<and>
      getitem config' ''mcpServers'' = Inr servers' \<and>
      getitem servers' ''demo'' = Inr entry' \<and>
      getitem entry' ''env'' = Inr (JObj env') \<and>
      map_of env' ''A'' = Some (JStr ''1'') \<and>
      map_of env' ''B'' = Some (JStr ''3'') \<and>
      map_of env' ''C'' = Some (JStr ''4'') \<and>
      getitem servers' ''other'' = Inr (JObj [(''command'', JStr ''node'')]) \<and>
      getitem servers' ''bare'' = Inr (JObj [(''command'', JStr ''uv'')]) \<and>
      getitem config' ''theme'' = Inr (JStr ''dark'')"
    by (intro exI [of _ config'] exI [of _ servers'] exI [of _ entry'] exI [of _ env'] conjI
        a b c g h1 h2 h3 e1 e2 f')
  note th2 = update_keeps_env_and_other_servers [OF q0 mac_path mac_file]
  from th2 obtain config2 servers2 entry2 where
    a2: "fs (snd ?q) (config_file mac_dir) = Some (File (Json config2))"
    and b2: "getitem config2 ''mcpServers'' = Inr servers2"
    and c2: "getitem servers2 ''bare'' = Inr entry2"
    and f2: "\<forall>key. key \<noteq> ''mcpServers'' \<longrightarrow> getitem config2 key = getitem old_config key"
    and e2': "\<forall>other. other \<noteq> ''bare'' \<longrightarrow>
              getitem servers2 other = getitem (servers_of old_config) other"
    by (elim exE conjE) (rule that)
  from e2' [rule_format, of "''demo''"]
  have s1: "getitem servers2 ''demo'' = Inr demo_entry"
    by (simp add: old_servers_of old_servers_def)
  from e2' [rule_format, of "''other''"]
  have s2: "getitem servers2 ''other'' = Inr (JObj [(''command'', JStr ''node'')])"
    by (simp add: old_servers_of old_servers_def)
  have second: "\<exists>config' servers'.
      fs (snd ?q) (config_file mac_dir) = Some (File (Json config')) \<and>
      getitem config' ''mcpServers'' = Inr servers' \<and>
      getitem servers' ''demo'' = Inr demo_entry \<and>
      getitem servers' ''other'' = Inr (JObj [(''command'', JStr ''node'')])"
    by (intro exI [of _ config2] exI [of _ servers2] conjI a2 b2 s1 s2)
  show ?thesis
    by (intro conjI demo_updated mac_path mac_file p4 p5 p6 first bare_updated second)
qed




end
